theory Spec2Isabelle
  imports Complex_Main "HOL-Library.Word"
begin

section \<open>Strings\<close>

text \<open>
  A JavaScript string is a sequence of UTF-16 code units. None of the regular expressions of
  the program carries the \<open>u\<close> flag, so they work on code units as well.
\<close>

type_synonym jschar = "16 word"
type_synonym jsstring = "jschar list"

text \<open>An ASCII literal of the source, as code units.\<close>

definition js :: "string \<Rightarrow> jsstring" where
  "js s = map (\<lambda>c. of_nat (of_char c)) s"

text \<open>
  ECMAScript \<open>LineTerminator\<close>: LF, CR, U+2028, U+2029. The regular expression atom \<open>.\<close>
  (no \<open>s\<close> flag) matches every code unit but these.
\<close>

definition isLineTerminator :: "jschar \<Rightarrow> bool" where
  "isLineTerminator c = (c = 0x0A \<or> c = 0x0D \<or> c = 0x2028 \<or> c = 0x2029)"

text \<open>
  What \<open>\s\<close> matches and what \<open>String.prototype.trim\<close> strips: ECMAScript \<open>WhiteSpace\<close>
  (TAB, VT, FF, U+FEFF and the space separators U+0020, U+00A0, U+1680, U+2000..U+200A,
  U+202F, U+205F, U+3000) together with the line terminators.
\<close>

definition isWhiteSpace :: "jschar \<Rightarrow> bool" where
  "isWhiteSpace c =
     (c = 0x09 \<or> c = 0x0B \<or> c = 0x0C \<or> c = 0x20 \<or> c = 0xA0 \<or> c = 0x1680 \<or>
      (0x2000 \<le> c \<and> c \<le> 0x200A) \<or> c = 0x202F \<or> c = 0x205F \<or> c = 0x3000 \<or>
      c = 0xFEFF \<or> isLineTerminator c)"

text \<open>The character class \<open>[\<dots>(]\<close>: U+FF08 (full-width) or U+0028.\<close>

definition isOpener :: "jschar \<Rightarrow> bool" where
  "isOpener c = (c = 0xFF08 \<or> c = 0x28)"

text \<open>The character class \<open>[\<dots>)]\<close>: U+FF09 (full-width) or U+0029.\<close>

definition isCloser :: "jschar \<Rightarrow> bool" where
  "isCloser c = (c = 0xFF09 \<or> c = 0x29)"

definition isParen :: "jschar \<Rightarrow> bool" where
  "isParen c = (isOpener c \<or> isCloser c)"

text \<open>\<open>String.prototype.trim\<close>.\<close>

definition trimStart :: "jsstring \<Rightarrow> jsstring" where
  "trimStart s = dropWhile isWhiteSpace s"

definition trimEnd :: "jsstring \<Rightarrow> jsstring" where
  "trimEnd s = rev (dropWhile isWhiteSpace (rev s))"

definition trim :: "jsstring \<Rightarrow> jsstring" where
  "trim s = trimEnd (trimStart s)"

text \<open>\<open>String.prototype.includes\<close>: the needle occurs as a contiguous run.\<close>

fun includesStr :: "jsstring \<Rightarrow> jsstring \<Rightarrow> bool" where
  "includesStr [] needle = (needle = [])"
| "includesStr (c # cs) needle = (take (length needle) (c # cs) = needle \<or> includesStr cs needle)"

text \<open>
  \<open>String.prototype.split\<close> with a one-unit separator. The result always has at least one
  element: \<open>"".split("\n")\<close> is \<open>[""]\<close>.
\<close>

fun splitOn :: "jschar \<Rightarrow> jsstring \<Rightarrow> jsstring list" where
  "splitOn sep [] = [[]]"
| "splitOn sep (c # cs) =
     (if c = sep then [] # splitOn sep cs
      else (case splitOn sep cs of
              [] \<Rightarrow> [[c]]
            | l # ls \<Rightarrow> (c # l) # ls))"

section \<open>Global regular-expression replacement\<close>

text \<open>
  A matcher stands for one regular expression: applied to the rest of the input from some
  position, it gives the length of the match that starts there, if there is one. (The
  expressions of the program have no look-behind and no \<open>^\<close>, so a match depends on the
  rest of the input only.)

  \<open>String.prototype.replace\<close> with a \<open>g\<close> expression scans from the left: where the
  expression matches, the match is cut out and the scan goes on behind it; where it does not,
  the code unit is kept and the scan moves one unit on. An empty match is replaced where it
  stands and the scan moves one unit on.
\<close>

type_synonym matcher = "jsstring \<Rightarrow> nat option"

datatype piece = Lit jschar | Match jsstring

function scanG :: "matcher \<Rightarrow> jsstring \<Rightarrow> piece list" where
  "scanG m [] = (case m [] of None \<Rightarrow> [] | Some n \<Rightarrow> [Match []])"
| "scanG m (c # cs) =
     (case m (c # cs) of
        None \<Rightarrow> Lit c # scanG m cs
      | Some n \<Rightarrow>
          if n = 0 then Match [] # Lit c # scanG m cs
          else Match (take n (c # cs)) # scanG m (drop n (c # cs)))"
  by pat_completeness auto
termination
  by (relation "measure (\<lambda>(m, s). length s)") auto

fun pieceOut :: "jsstring \<Rightarrow> piece \<Rightarrow> jsstring" where
  "pieceOut repl (Lit c) = [c]"
| "pieceOut repl (Match g) = repl"

fun pieceIn :: "piece \<Rightarrow> jsstring" where
  "pieceIn (Lit c) = [c]"
| "pieceIn (Match g) = g"

definition replaceG :: "matcher \<Rightarrow> jsstring \<Rightarrow> jsstring \<Rightarrow> jsstring" where
  "replaceG m repl s = concat (map (pieceOut repl) (scanG m s))"

text \<open>The substrings a global replacement removes, from left to right.\<close>

definition removedG :: "matcher \<Rightarrow> jsstring \<Rightarrow> jsstring list" where
  "removedG m s = concat (map (\<lambda>p. case p of Lit c \<Rightarrow> [] | Match g \<Rightarrow> [g]) (scanG m s))"

text \<open>\<open>RegExp.prototype.test\<close>: the expression matches somewhere.\<close>

fun testG :: "matcher \<Rightarrow> jsstring \<Rightarrow> bool" where
  "testG m [] = (m [] \<noteq> None)"
| "testG m (c # cs) = (m (c # cs) \<noteq> None \<or> testG m cs)"

section \<open>The regular expressions of the program\<close>

text \<open>
  \<open>.*?[\<dots>)]\<close> behind an opener: the lazy star first tries to end at once with a closer; if
  the code unit is no closer it takes it as \<open>.\<close>, which a line terminator refuses. The
  result counts the code units up to and with the closer.
\<close>

fun lazyClose :: "jsstring \<Rightarrow> nat option" where
  "lazyClose [] = None"
| "lazyClose (c # cs) =
     (if isCloser c then Some 1
      else if isLineTerminator c then None
      else map_option Suc (lazyClose cs))"

text \<open>\<open>/[\<dots>(].*?[\<dots>)]/\<close> of \<open>cleanJapaneseText\<close>.\<close>

fun groupAt :: matcher where
  "groupAt [] = None"
| "groupAt (c # cs) = (if isOpener c then map_option Suc (lazyClose cs) else None)"

text \<open>
  \<open>.*?[\<dots>)]\s*$\<close>: here ending at a closer works only if nothing but white space follows
  up to the end of the input; otherwise the lazy star backtracks and takes the closer as
  \<open>.\<close>. A match always runs to the end of the input.
\<close>

fun lazyCloseEnd :: "jsstring \<Rightarrow> nat option" where
  "lazyCloseEnd [] = None"
| "lazyCloseEnd (c # cs) =
     (if isCloser c \<and> list_all isWhiteSpace cs then Some (Suc (length cs))
      else if isLineTerminator c then None
      else map_option Suc (lazyCloseEnd cs))"

text \<open>
  \<open>/\s*[\<dots>(].*?[\<dots>)]\s*$/\<close> of \<open>extractJapaneseOnly\<close>. The greedy \<open>\s*\<close> takes the whole
  run of white space: giving some back leaves a white-space unit where the opener must be.
\<close>

definition trailingGroupAt :: matcher where
  "trailingGroupAt s =
     (let k = length (takeWhile isWhiteSpace s) in
      case drop k s of
        [] \<Rightarrow> None
      | c # cs \<Rightarrow> if isOpener c then map_option (\<lambda>n. k + 1 + n) (lazyCloseEnd cs) else None)"

text \<open>
  \<open>/<br\s*\/?>/gi\<close>. With the \<open>i\<close> flag (and no \<open>u\<close> flag) \<open>b\<close> and \<open>r\<close> match their two
  ASCII cases only. Behind the white space comes \<open>/>\<close> or \<open>>\<close>.
\<close>

definition brAt :: matcher where
  "brAt s =
     (case s of
        a # b # c # rest \<Rightarrow>
          if a = 0x3C \<and> (b = 0x62 \<or> b = 0x42) \<and> (c = 0x72 \<or> c = 0x52) then
            (let k = length (takeWhile isWhiteSpace rest) in
             case drop k rest of
               [] \<Rightarrow> None
             | d # ds \<Rightarrow>
                 if d = 0x2F then (case ds of [] \<Rightarrow> None | e # es \<Rightarrow> if e = 0x3E then Some (k + 5) else None)
                 else if d = 0x3E then Some (k + 4)
                 else None)
          else None
      | _ \<Rightarrow> None)"

text \<open>\<open>/<[^>]*>/g\<close>: from \<open><\<close> to the next \<open>>\<close>, line breaks included.\<close>

definition tagAt :: matcher where
  "tagAt s =
     (case s of
        [] \<Rightarrow> None
      | a # rest \<Rightarrow>
          if a = 0x3C then
            (let k = length (takeWhile (\<lambda>c. c \<noteq> 0x3E) rest) in
             if k < length rest then Some (k + 2) else None)
          else None)"

section \<open>The text normaliser (src/data/tts.js)\<close>

text \<open>
  \<open>cleanJapaneseText\<close> (src/data/tts.js lines 16-20, the same in src/unnamed/part_000). The
  argument is a string or \<open>null\<close>/\<open>undefined\<close> (\<open>None\<close>); \<open>!text\<close> holds for both of these and
  for the empty string.
\<close>

definition cleanJapaneseText :: "jsstring option \<Rightarrow> jsstring" where
  "cleanJapaneseText text =
     (case text of
        None \<Rightarrow> []
      | Some t \<Rightarrow> if t = [] then [] else trim (replaceG groupAt [] t))"

text \<open>
  \<open>extractJapaneseOnly\<close> (src/data/tts.js lines 27-49): line-break tags become newlines,
  other tags go, the text is split on newline, \<open>lines[0]\<close> is trimmed, a group at its end is
  removed and the rest is cleaned. The last \<open>return\<close> is the branch for an empty \<open>lines\<close>.
\<close>

definition extractJapaneseOnly :: "jsstring option \<Rightarrow> jsstring" where
  "extractJapaneseOnly text =
     (case text of
        None \<Rightarrow> []
      | Some t \<Rightarrow>
          if t = [] then []
          else
            (let cleanText = replaceG brAt [0x0A] t;
                 cleanText' = replaceG tagAt [] cleanText;
                 lines = splitOn 0x0A cleanText'
             in if length lines > 0 then
                  (let japanesePart = trim (lines ! 0);
                       japanesePart' = replaceG trailingGroupAt [] japanesePart
                   in cleanJapaneseText (Some japanesePart'))
                else cleanJapaneseText (Some t)))"

text \<open>
  The normaliser as the specification words it, for comparison with \<open>extractJapaneseOnly\<close>:
  (a) line-break markers become a newline, (b) other tags are stripped, (c) the text is split
  on newline and the first non-empty segment is taken, falling back to the annotation cleanup
  of the whole raw input if there is none, (d) one trailing parenthesised group is removed,
  (e) the annotation cleanup is applied.
\<close>

definition extractPrimaryText_spec :: "jsstring \<Rightarrow> jsstring" where
  "extractPrimaryText_spec raw =
     (let normalized = replaceG brAt [0x0A] raw;
          stripped = replaceG tagAt [] normalized
      in case List.find (\<lambda>seg. seg \<noteq> []) (splitOn 0x0A stripped) of
           None \<Rightarrow> cleanJapaneseText (Some raw)
         | Some seg \<Rightarrow> cleanJapaneseText (Some (replaceG trailingGroupAt [] (trim seg))))"

text \<open>
  Properly paired input: every opener met outside a group is followed by a closer before any
  line terminator, and no closer stands outside a group. The flag says whether the scan is
  inside a group.
\<close>

fun wellPaired :: "bool \<Rightarrow> jsstring \<Rightarrow> bool" where
  "wellPaired inside [] = (\<not> inside)"
| "wellPaired inside (c # cs) =
     (if inside then
        (if isCloser c then wellPaired False cs
         else \<not> isLineTerminator c \<and> wellPaired True cs)
      else
        (if isOpener c then wellPaired True cs
         else \<not> isCloser c \<and> wellPaired False cs))"

section \<open>The speech capability\<close>

text \<open>
  \<open>window.speechSynthesis\<close> is the platform's, not the program's. It is modelled by what the
  program can see of it and ask of it: the flag \<open>speaking\<close> (an utterance has begun to be
  spoken and has not finished), the queue of utterances handed over and not yet resolved (its
  head is the one being spoken), from which \<open>pending\<close> is read, the voice catalogue,
  whether \<open>speak\<close> throws, and the property \<open>onvoiceschanged\<close>. \<open>requests\<close> records the
  calls the capability has accepted.
\<close>

record voice =
  vlang :: jsstring
  vname :: jsstring

text \<open>A \<open>SpeechSynthesisUtterance\<close> with the properties the program sets on it.\<close>

record utterance =
  utext :: jsstring
  ulang :: jsstring
  urate :: rat
  upitch :: rat
  uvolume :: rat
  uvoice :: "voice option"

datatype request = Cancel | Submit utterance

text \<open>
  The value of \<open>synth.onvoiceschanged\<close>: \<open>undefined\<close> where the platform has no such event,
  \<open>null\<close> while no handler is set, or the handler that \<open>initTTS\<close> sets.
\<close>

datatype hook = Unsupported | Unset | LogJapaneseVoices

record synthesis =
  speaking :: bool
  queue :: "utterance list"
  voices :: "voice list"
  rejects :: bool
  requests :: "request list"
  onvoiceschanged :: hook

definition pending :: "synthesis \<Rightarrow> bool" where
  "pending c = (if speaking c then 1 < length (queue c) else queue c \<noteq> [])"

text \<open>\<open>cancel()\<close> removes every utterance from the queue and stops the one being spoken.\<close>

definition cancelAll :: "synthesis \<Rightarrow> synthesis" where
  "cancelAll c = c\<lparr>speaking := False, queue := [], requests := requests c @ [Cancel]\<rparr>"

datatype exn = SubmitFailure

text \<open>\<open>speak(u)\<close> appends the utterance to the queue, or throws.\<close>

definition submit :: "utterance \<Rightarrow> synthesis \<Rightarrow> exn + synthesis" where
  "submit u c =
     (if rejects c then Inl SubmitFailure
      else Inr (c\<lparr>queue := queue c @ [u], requests := requests c @ [Submit u]\<rparr>))"

text \<open>The capability resolves an utterance (it ended or failed): it leaves the queue.\<close>

definition resolve :: "utterance \<Rightarrow> synthesis \<Rightarrow> synthesis" where
  "resolve u c =
     (case queue c of
        [] \<Rightarrow> c
      | h # rest \<Rightarrow>
          if h = u then c\<lparr>speaking := False, queue := rest\<rparr>
          else c\<lparr>queue := h # remove1 u rest\<rparr>)"

section \<open>Module state and effects\<close>

datatype level = ConsoleLog | ConsoleWarn | ConsoleError

datatype jsval = Str jsstring | Thrown exn

datatype diag = Diag level "jsval list"

text \<open>
  A pending \<open>setTimeout\<close>: the delay in milliseconds and what the callback's closure holds
  (\<open>cleanText\<close> and \<open>rate\<close>). All timers of one variant have the same delay, so they fire in
  the order they were set.
\<close>

datatype timer = Timer nat jsstring rat

record world =
  isSpeaking :: bool
  currentUtterance :: "utterance option"
  timers :: "timer list"
  console :: "diag list"
  synth :: synthesis

text \<open>
  A call returns a value or throws, and leaves a state behind in both cases.
\<close>

type_synonym 'a outcome = "(exn + 'a) \<times> world"

definition returns :: "'a \<Rightarrow> world \<Rightarrow> 'a outcome" where
  "returns v w = (Inr v, w)"

definition throws :: "exn \<Rightarrow> world \<Rightarrow> 'a outcome" where
  "throws e w = (Inl e, w)"

definition andThen :: "(world \<Rightarrow> 'a outcome) \<Rightarrow> ('a \<Rightarrow> world \<Rightarrow> 'b outcome) \<Rightarrow> world \<Rightarrow> 'b outcome" where
  "andThen f g w = (case f w of (Inl e, w1) \<Rightarrow> (Inl e, w1) | (Inr v, w1) \<Rightarrow> g v w1)"

definition tryCatch :: "(world \<Rightarrow> unit outcome) \<Rightarrow> (exn \<Rightarrow> world \<Rightarrow> unit outcome) \<Rightarrow> world \<Rightarrow> unit outcome" where
  "tryCatch body handler w = (case body w of (Inl e, w1) \<Rightarrow> handler e w1 | (Inr v, w1) \<Rightarrow> (Inr v, w1))"

definition consoleCall :: "level \<Rightarrow> jsval list \<Rightarrow> world \<Rightarrow> unit outcome" where
  "consoleCall l args w = returns () (w\<lparr>console := console w @ [Diag l args]\<rparr>)"

definition setTimeout :: "timer \<Rightarrow> world \<Rightarrow> unit outcome" where
  "setTimeout t w = returns () (w\<lparr>timers := timers w @ [t]\<rparr>)"

definition synthCancel :: "world \<Rightarrow> unit outcome" where
  "synthCancel w = returns () (w\<lparr>synth := cancelAll (synth w)\<rparr>)"

definition synthSpeak :: "utterance \<Rightarrow> world \<Rightarrow> unit outcome" where
  "synthSpeak u w =
     (case submit u (synth w) of
        Inl e \<Rightarrow> throws e w
      | Inr c \<Rightarrow> returns () (w\<lparr>synth := c\<rparr>))"

section \<open>The speech request manager (src/data/tts.js)\<close>

text \<open>\<open>stopSpeech\<close> (lines 129-135) and \<open>isTTSSpeaking\<close> (lines 140-142).\<close>

definition stopSpeech :: "world \<Rightarrow> unit outcome" where
  "stopSpeech =
     andThen (\<lambda>w. if speaking (synth w) then synthCancel w else returns () w)
       (\<lambda>_ w. returns () (w\<lparr>isSpeaking := False, currentUtterance := None\<rparr>))"

definition isTTSSpeaking :: "world \<Rightarrow> bool outcome" where
  "isTTSSpeaking w = returns (isSpeaking w) w"

text \<open>
  The utterance the delayed action builds (lines 72-93): the fixed properties and the voice
  chosen from the catalogue as it is at that moment, a \<open>ja-JP\<close> voice whose name includes
  \<open>Google\<close> first, any \<open>ja-JP\<close> voice second, else none.
\<close>

definition selectVoice :: "voice list \<Rightarrow> voice option" where
  "selectVoice vs =
     (let googleVoice = List.find (\<lambda>v. vlang v = js ''ja-JP'' \<and> includesStr (vname v) (js ''Google'')) vs;
          japaneseVoice = List.find (\<lambda>v. vlang v = js ''ja-JP'') vs
      in case googleVoice of
           Some g \<Rightarrow> Some g
         | None \<Rightarrow> japaneseVoice)"

definition newUtterance :: "jsstring \<Rightarrow> rat \<Rightarrow> voice list \<Rightarrow> utterance" where
  "newUtterance cleanText rate vs =
     \<lparr>utext = cleanText, ulang = js ''ja-JP'', urate = rate, upitch = 1, uvolume = 1,
      uvoice = selectVoice vs\<rparr>"

text \<open>
  The handlers the delayed action puts on the utterance (lines 96-114); \<open>cleanText\<close> is in
  their closure. The log texts begin with U+1F50A (a surrogate pair), U+2713 and U+274C.
\<close>

definition onstart :: "jsstring \<Rightarrow> world \<Rightarrow> unit outcome" where
  "onstart cleanText w =
     consoleCall ConsoleLog [Str ([0xD83D, 0xDD0A] @ js '' Speaking:''), Str (take 50 cleanText)]
       (w\<lparr>isSpeaking := True\<rparr>)"

definition onend :: "world \<Rightarrow> unit outcome" where
  "onend w =
     consoleCall ConsoleLog [Str ([0x2713] @ js '' Speech ended'')]
       (w\<lparr>isSpeaking := False, currentUtterance := None\<rparr>)"

definition onerror :: "jsstring \<Rightarrow> world \<Rightarrow> unit outcome" where
  "onerror error =
     andThen
       (\<lambda>w. if error \<noteq> js ''interrupted'' \<and> error \<noteq> js ''cancelled''
            then consoleCall ConsoleError [Str ([0x274C] @ js '' Speech error:''), Str error] w
            else returns () w)
       (\<lambda>_ w. returns () (w\<lparr>isSpeaking := False, currentUtterance := None\<rparr>))"

text \<open>
  The callback given to \<open>setTimeout\<close> (lines 69-123): the \<open>try\<close> block, which stores the new
  utterance, sets \<open>isSpeaking\<close> and calls \<open>synth.speak\<close>, and its \<open>catch\<close>.
\<close>

definition submitBody :: "jsstring \<Rightarrow> rat \<Rightarrow> world \<Rightarrow> unit outcome" where
  "submitBody cleanText rate w =
     (let u = newUtterance cleanText rate (voices (synth w));
          w1 = w\<lparr>currentUtterance := Some u\<rparr>;
          w2 = w1\<lparr>isSpeaking := True\<rparr>
      in synthSpeak u w2)"

definition delayedAction :: "jsstring \<Rightarrow> rat \<Rightarrow> world \<Rightarrow> unit outcome" where
  "delayedAction cleanText rate =
     tryCatch (submitBody cleanText rate)
       (\<lambda>e. andThen (consoleCall ConsoleError [Str (js ''TTS Error:''), Thrown e])
               (\<lambda>_ w. returns () (w\<lparr>isSpeaking := False\<rparr>)))"

text \<open>
  \<open>speakJapanese\<close> (lines 56-124). \<open>rate = 0.85\<close>: the default applies when the argument is
  absent. The rate is only stored on the utterance, never computed with; it is a rational
  here.
\<close>

definition rateOrDefault :: "rat option \<Rightarrow> rat" where
  "rateOrDefault r = (case r of None \<Rightarrow> 85 / 100 | Some x \<Rightarrow> x)"

definition speakJapanese :: "jsstring option \<Rightarrow> rat option \<Rightarrow> world \<Rightarrow> unit outcome" where
  "speakJapanese text rate w =
     (let cleanText = cleanJapaneseText text in
      if cleanText = [] \<or> trim cleanText = [] then
        consoleCall ConsoleWarn [Str (js ''TTS: Empty text provided'')] w
      else
        andThen stopSpeech (\<lambda>_. setTimeout (Timer 50 cleanText (rateOrDefault rate))) w)"

text \<open>
  \<open>Number\<close> to string, for a length: the decimal digits.
\<close>

fun showNat :: "nat \<Rightarrow> jsstring" where
  "showNat n = (if n < 10 then [of_nat (48 + n)] else showNat (n div 10) @ [of_nat (48 + n mod 10)])"

declare showNat.simps [simp del]

text \<open>
  \<open>initTTS\<close> (lines 147-161, the same in src/unnamed/part_000 lines 104-118): where the
  platform has the event, the handler is set; the result of the \<open>getVoices()\<close> call that
  follows is not used. The handler reads the catalogue, keeps the \<open>ja-JP\<close> voices and logs
  their number in one string, which begins with U+2713. The module calls \<open>initTTS\<close> itself,
  at once or when the document is ready (lines 164-168).
\<close>

definition voicesChanged :: "world \<Rightarrow> unit outcome" where
  "voicesChanged w =
     (let vs = voices (synth w);
          japaneseVoices = filter (\<lambda>v. vlang v = js ''ja-JP'') vs
      in consoleCall ConsoleLog
           [Str ([0x2713] @ js '' TTS Ready: '' @ showNat (length japaneseVoices) @
                 js '' Japanese voices available'')] w)"

definition initTTS :: "world \<Rightarrow> unit outcome" where
  "initTTS w =
     (if onvoiceschanged (synth w) \<noteq> Unsupported
      then returns () (w\<lparr>synth := (synth w)\<lparr>onvoiceschanged := LogJapaneseVoices\<rparr>\<rparr>)
      else returns () w)"

section \<open>The speech request manager (src/unnamed/part_000)\<close>

text \<open>
  \<open>cleanJapaneseText\<close>, \<open>stopSpeech\<close> and \<open>isTTSSpeaking\<close> are the same in both files. The
  handlers are those of lines 58-74: \<open>onend\<close> logs nothing and \<open>onerror\<close> tests for
  \<open>"interrupted"\<close> only.
\<close>

definition onstart_part0 :: "jsstring \<Rightarrow> world \<Rightarrow> unit outcome" where
  "onstart_part0 cleanText w =
     consoleCall ConsoleLog [Str ([0xD83D, 0xDD0A] @ js '' Speaking:''), Str cleanText]
       (w\<lparr>isSpeaking := True\<rparr>)"

definition onend_part0 :: "world \<Rightarrow> unit outcome" where
  "onend_part0 w = returns () (w\<lparr>isSpeaking := False, currentUtterance := None\<rparr>)"

definition onerror_part0 :: "jsstring \<Rightarrow> world \<Rightarrow> unit outcome" where
  "onerror_part0 error =
     andThen
       (\<lambda>w. if error \<noteq> js ''interrupted''
            then consoleCall ConsoleError [Str (js ''TTS error:''), Str error] w
            else returns () w)
       (\<lambda>_ w. returns () (w\<lparr>isSpeaking := False, currentUtterance := None\<rparr>))"

text \<open>
  Here the callback (lines 36-77) has no \<open>try\<close> of its own and does not touch \<open>isSpeaking\<close>.
  \<open>speakJapanese\<close> (lines 27-81) returns silently on empty text, cancels when the capability
  is \<open>speaking\<close> or \<open>pending\<close>, and sets the timer to 500 ms; its \<open>try\<close> encloses the cancel
  and the \<open>setTimeout\<close> call.
\<close>

definition delayedAction_part0 :: "jsstring \<Rightarrow> rat \<Rightarrow> world \<Rightarrow> unit outcome" where
  "delayedAction_part0 cleanText rate w =
     (let u = newUtterance cleanText rate (voices (synth w));
          w1 = w\<lparr>currentUtterance := Some u\<rparr>
      in synthSpeak u w1)"

definition speakJapanese_part0 :: "jsstring option \<Rightarrow> rat option \<Rightarrow> world \<Rightarrow> unit outcome" where
  "speakJapanese_part0 text rate w =
     (let cleanText = cleanJapaneseText text in
      if cleanText = [] then returns () w
      else
        tryCatch
          (andThen (\<lambda>w. if speaking (synth w) \<or> pending (synth w) then synthCancel w else returns () w)
             (\<lambda>_. setTimeout (Timer 500 cleanText (rateOrDefault rate))))
          (\<lambda>err. consoleCall ConsoleError [Str (js ''TTS Error:''), Thrown err])
          w)"

section \<open>The event loop\<close>

text \<open>
  What can happen, one at a time: the host page calls an exposed function, the oldest timer
  fires, the capability reports on an utterance, or the capability's catalogue or
  willingness to accept submissions changes. \<open>CallInitTTS\<close> is also the module's own
  initialisation. A change of the catalogue runs the \<open>onvoiceschanged\<close> handler if it has
  been set. An exception that escapes a task goes to the host's error reporting; the loop
  goes on with the state the task left.
\<close>

datatype event =
    CallSpeak "jsstring option" "rat option"
  | CallStop
  | CallIsSpeaking
  | TimerFires
  | Started utterance
  | Ended utterance
  | Errored utterance jsstring
  | CatalogChanged "voice list"
  | Rejecting bool
  | CallInitTTS

fun environment :: "event \<Rightarrow> world \<Rightarrow> world" where
  "environment (Started u) w = w\<lparr>synth := (synth w)\<lparr>speaking := True\<rparr>\<rparr>"
| "environment (Ended u) w = w\<lparr>synth := resolve u (synth w)\<rparr>"
| "environment (Errored u k) w = w\<lparr>synth := resolve u (synth w)\<rparr>"
| "environment (CatalogChanged vs) w = w\<lparr>synth := (synth w)\<lparr>voices := vs\<rparr>\<rparr>"
| "environment (Rejecting b) w = w\<lparr>synth := (synth w)\<lparr>rejects := b\<rparr>\<rparr>"
| "environment e w = w"

fun task :: "event \<Rightarrow> world \<Rightarrow> unit outcome" where
  "task (CallSpeak t r) w = speakJapanese t r w"
| "task CallStop w = stopSpeech w"
| "task CallIsSpeaking w = andThen isTTSSpeaking (\<lambda>_. returns ()) w"
| "task TimerFires w =
     (case timers w of
        [] \<Rightarrow> returns () w
      | Timer d cleanText rate # ts \<Rightarrow> delayedAction cleanText rate (w\<lparr>timers := ts\<rparr>))"
| "task (Started u) w = onstart (utext u) w"
| "task (Ended u) w = onend w"
| "task (Errored u k) w = onerror k w"
| "task (CatalogChanged vs) w =
     (case onvoiceschanged (synth w) of
        LogJapaneseVoices \<Rightarrow> voicesChanged w
      | _ \<Rightarrow> returns () w)"
| "task CallInitTTS w = initTTS w"
| "task e w = returns () w"

definition step :: "world \<Rightarrow> event \<Rightarrow> world" where
  "step w e = snd (task e (environment e w))"

definition run :: "world \<Rightarrow> event list \<Rightarrow> world" where
  "run w es = foldl step w es"

fun task_part0 :: "event \<Rightarrow> world \<Rightarrow> unit outcome" where
  "task_part0 (CallSpeak t r) w = speakJapanese_part0 t r w"
| "task_part0 CallStop w = stopSpeech w"
| "task_part0 CallIsSpeaking w = andThen isTTSSpeaking (\<lambda>_. returns ()) w"
| "task_part0 TimerFires w =
     (case timers w of
        [] \<Rightarrow> returns () w
      | Timer d cleanText rate # ts \<Rightarrow> delayedAction_part0 cleanText rate (w\<lparr>timers := ts\<rparr>))"
| "task_part0 (Started u) w = onstart_part0 (utext u) w"
| "task_part0 (Ended u) w = onend_part0 w"
| "task_part0 (Errored u k) w = onerror_part0 k w"
| "task_part0 (CatalogChanged vs) w =
     (case onvoiceschanged (synth w) of
        LogJapaneseVoices \<Rightarrow> voicesChanged w
      | _ \<Rightarrow> returns () w)"
| "task_part0 CallInitTTS w = initTTS w"
| "task_part0 e w = returns () w"

definition step_part0 :: "world \<Rightarrow> event \<Rightarrow> world" where
  "step_part0 w e = snd (task_part0 e (environment e w))"

definition run_part0 :: "world \<Rightarrow> event list \<Rightarrow> world" where
  "run_part0 w es = foldl step_part0 w es"

text \<open>
  Module load (lines 7-9): \<open>currentUtterance = null\<close>, \<open>isSpeaking = false\<close>, nothing
  scheduled, no \<open>onvoiceschanged\<close> handler yet.
\<close>

definition initWorld :: "voice list \<Rightarrow> world" where
  "initWorld vs =
     \<lparr>isSpeaking = False, currentUtterance = None, timers = [], console = [],
      synth = \<lparr>speaking = False, queue = [], voices = vs, rejects = False, requests = [],
               onvoiceschanged = Unset\<rparr>\<rparr>"

fun isStarted :: "event \<Rightarrow> bool" where
  "isStarted (Started u) = True"
| "isStarted e = False"

fun isTimerFires :: "event \<Rightarrow> bool" where
  "isTimerFires TimerFires = True"
| "isTimerFires e = False"

text \<open>
  Events that set no timer and fire none: everything but a \<open>speakJapanese\<close> call and a
  timer. And, among these, the events that leave the capability's queue alone: no
  \<open>stopSpeech\<close> call and no end or error notification either.
\<close>

fun quiet :: "event \<Rightarrow> bool" where
  "quiet (CallSpeak t r) = False"
| "quiet TimerFires = False"
| "quiet e = True"

fun harmless :: "event \<Rightarrow> bool" where
  "harmless CallStop = False"
| "harmless (Ended u) = False"
| "harmless (Errored u k) = False"
| "harmless e = quiet e"

section \<open>Facts about the normaliser\<close>

lemma closer_not_lineTerminator: "isCloser c \<Longrightarrow> \<not> isLineTerminator c"
  by (auto simp: isCloser_def isLineTerminator_def)

lemma opener_not_lineTerminator: "isOpener c \<Longrightarrow> \<not> isLineTerminator c"
  by (auto simp: isOpener_def isLineTerminator_def)

lemma opener_not_closer: "isOpener c \<Longrightarrow> \<not> isCloser c"
  by (auto simp: isOpener_def isCloser_def)

lemma closer_not_whiteSpace: "isCloser c \<Longrightarrow> \<not> isWhiteSpace c"
  by (auto simp: isCloser_def isWhiteSpace_def isLineTerminator_def)

lemma opener_not_whiteSpace: "isOpener c \<Longrightarrow> \<not> isWhiteSpace c"
  by (auto simp: isOpener_def isWhiteSpace_def isLineTerminator_def)

lemma lazyClose_bounds: "lazyClose s = Some n \<Longrightarrow> 0 < n \<and> n \<le> length s"
  by (induction s arbitrary: n) (auto split: if_splits)

lemma groupAt_bounds: "groupAt s = Some n \<Longrightarrow> 2 \<le> n \<and> n \<le> length s"
  by (cases s) (auto split: if_splits dest: lazyClose_bounds)

lemma lazyClose_shape:
  "lazyClose s = Some n \<Longrightarrow>
   \<exists>mid c. take n s = mid @ [c] \<and> isCloser c \<and>
     (\<forall>x\<in>set mid. \<not> isCloser x \<and> \<not> isLineTerminator x)"
proof (induction s arbitrary: n)
  case Nil
  then show ?case by simp
next
  case (Cons a s)
  show ?case
  proof (cases "isCloser a")
    case True
    with Cons.prems have "n = 1" by simp
    with True show ?thesis by (intro exI[of _ "[]"] exI[of _ a]) simp
  next
    case False
    with Cons.prems obtain k where k: "lazyClose s = Some k" "n = Suc k" "\<not> isLineTerminator a"
      by (auto split: if_splits)
    from Cons.IH[OF k(1)] obtain mid c where
      "take k s = mid @ [c]" "isCloser c" "\<forall>x\<in>set mid. \<not> isCloser x \<and> \<not> isLineTerminator x"
      by blast
    with k False show ?thesis
      by (intro exI[of _ "a # mid"] exI[of _ c]) simp
  qed
qed

lemma lazyClose_complete:
  "isCloser c \<Longrightarrow> \<forall>x\<in>set mid. \<not> isCloser x \<and> \<not> isLineTerminator x \<Longrightarrow>
   lazyClose (mid @ c # rest) = Some (Suc (length mid))"
  by (induction mid) auto

lemma groupAt_shape:
  "groupAt s = Some n \<Longrightarrow>
   \<exists>opn mid c. take n s = opn # mid @ [c] \<and> isOpener opn \<and> isCloser c \<and>
     (\<forall>x\<in>set mid. \<not> isCloser x \<and> \<not> isLineTerminator x)"
proof (cases s)
  case Nil
  assume "groupAt s = Some n"
  with Nil show ?thesis by simp
next
  case (Cons a t)
  assume "groupAt s = Some n"
  with Cons obtain k where k: "isOpener a" "lazyClose t = Some k" "n = Suc k"
    by (auto split: if_splits)
  from lazyClose_shape[OF k(2)] obtain mid c where
    "take k t = mid @ [c]" "isCloser c" "\<forall>x\<in>set mid. \<not> isCloser x \<and> \<not> isLineTerminator x"
    by blast
  with k Cons show ?thesis by (intro exI[of _ a] exI[of _ mid] exI[of _ c]) simp
qed

lemma scanG_pieces: "concat (map pieceIn (scanG m s)) = s"
  by (induction m s rule: scanG.induct) (auto split: option.splits)

lemma scanG_match_sound:
  "Match g \<in> set (scanG m s) \<Longrightarrow> g = [] \<or> (\<exists>t n. m t = Some n \<and> 0 < n \<and> t \<noteq> [] \<and> g = take n t)"
proof (induction m s rule: scanG.induct)
  case (1 m)
  then show ?case by (auto split: option.splits)
next
  case (2 m c cs)
  then show ?case
    by (auto split: option.splits if_splits)
qed

lemma lazyClose_append: "lazyClose s = Some n \<Longrightarrow> lazyClose (s @ t) = Some n"
  by (induction s arbitrary: n) (auto split: if_splits)

lemma groupAt_append: "groupAt s = Some n \<Longrightarrow> groupAt (s @ t) = Some n"
  by (cases s) (auto split: if_splits dest: lazyClose_append)

lemma testG_groupAt_append_left: "testG groupAt t \<Longrightarrow> testG groupAt (s @ t)"
  by (induction s) auto

lemma testG_groupAt_append_right: "testG groupAt s \<Longrightarrow> testG groupAt (s @ t)"
proof (induction s)
  case Nil
  then show ?case by simp
next
  case (Cons a s)
  show ?case
  proof (cases "groupAt (a # s)")
    case None
    with Cons show ?thesis by simp
  next
    case (Some n)
    from groupAt_append[OF Some, of t] show ?thesis by simp
  qed
qed

text \<open>A line terminator or the end before any closer.\<close>

lemma lazyClose_replaceG:
  "lazyClose s = None \<Longrightarrow> lazyClose (replaceG groupAt [] s) = None"
proof (induction s)
  case Nil
  then show ?case by (simp add: replaceG_def)
next
  case (Cons a s)
  from Cons.prems have na: "\<not> isCloser a" by (auto split: if_splits)
  have g: "groupAt (a # s) = None"
  proof (cases "isOpener a")
    case True
    with Cons.prems na have "lazyClose s = None"
      by (auto split: if_splits dest: opener_not_lineTerminator)
    then show ?thesis by simp
  next
    case False
    then show ?thesis by simp
  qed
  then have r: "replaceG groupAt [] (a # s) = a # replaceG groupAt [] s"
    by (simp add: replaceG_def)
  show ?case
  proof (cases "isLineTerminator a")
    case True
    with na r show ?thesis by simp
  next
    case False
    with Cons.prems na have "lazyClose s = None" by (auto split: if_splits)
    with Cons.IH na False r show ?thesis by simp
  qed
qed

lemma replaceG_groupAt_no_group: "\<not> testG groupAt (replaceG groupAt [] s)"
proof (induction groupAt s rule: scanG.induct)
  case 1
  then show ?case by (simp add: replaceG_def)
next
  case (2 c cs)
  show ?case
  proof (cases "groupAt (c # cs)")
    case None
    then have r: "replaceG groupAt [] (c # cs) = c # replaceG groupAt [] cs"
      by (simp add: replaceG_def)
    have "groupAt (c # replaceG groupAt [] cs) = None"
    proof (cases "isOpener c")
      case True
      with None have "lazyClose cs = None" by simp
      then show ?thesis by (simp add: lazyClose_replaceG)
    next
      case False
      then show ?thesis by simp
    qed
    with 2(1)[OF None] r show ?thesis by simp
  next
    case (Some n)
    then have n: "n \<noteq> 0" using groupAt_bounds by fastforce
    with Some have r: "replaceG groupAt [] (c # cs) = replaceG groupAt [] (drop n (c # cs))"
      by (simp add: replaceG_def)
    from 2(3)[OF Some n] r show ?thesis by simp
  qed
qed

lemma replaceG_no_match: "\<not> testG m s \<Longrightarrow> replaceG m repl s = s"
  by (induction s) (auto simp: replaceG_def)

lemma trimEnd_prefix: "\<exists>t. s = trimEnd s @ t"
proof -
  have "rev (dropWhile isWhiteSpace (rev s)) @ rev (takeWhile isWhiteSpace (rev s)) =
        rev (takeWhile isWhiteSpace (rev s) @ dropWhile isWhiteSpace (rev s))"
    by (simp only: rev_append)
  also have "\<dots> = rev (rev s)" by (simp only: takeWhile_dropWhile_id)
  finally have "s = trimEnd s @ rev (takeWhile isWhiteSpace (rev s))"
    by (simp add: trimEnd_def)
  then show ?thesis ..
qed

lemma trimStart_suffix: "\<exists>t. s = t @ trimStart s"
  unfolding trimStart_def by (metis takeWhile_dropWhile_id)

lemma testG_groupAt_trim: "testG groupAt (trim s) \<Longrightarrow> testG groupAt s"
proof -
  assume a: "testG groupAt (trim s)"
  obtain t where t: "trimStart s = trim s @ t" using trimEnd_prefix[of "trimStart s"] by (auto simp: trim_def)
  obtain u where u: "s = u @ trimStart s" using trimStart_suffix by blast
  from a have "testG groupAt (trim s @ t)" by (rule testG_groupAt_append_right)
  with t have "testG groupAt (trimStart s)" by simp
  then have "testG groupAt (u @ trimStart s)" by (rule testG_groupAt_append_left)
  with u show ?thesis by simp
qed

lemma trimStart_trimEnd: "trimStart (trimEnd (trimStart s)) = trimEnd (trimStart s)"
proof (cases "trimEnd (trimStart s)")
  case Nil
  then show ?thesis by (simp add: trimStart_def)
next
  case (Cons a t)
  obtain r where r: "trimStart s = trimEnd (trimStart s) @ r" using trimEnd_prefix by blast
  with Cons have "trimStart s = a # (t @ r)" by simp
  then have "\<not> isWhiteSpace a" unfolding trimStart_def
    by (metis dropWhile_eq_Cons_conv)
  with Cons show ?thesis by (simp add: trimStart_def)
qed

lemma trimEnd_idem: "trimEnd (trimEnd s) = trimEnd s"
  by (simp add: trimEnd_def)

lemma trim_idem: "trim (trim s) = trim s"
  by (simp add: trim_def trimStart_trimEnd trimEnd_idem)

lemma cleanJapaneseText_no_group: "\<not> testG groupAt (cleanJapaneseText t)"
  using replaceG_groupAt_no_group testG_groupAt_trim
  by (auto simp: cleanJapaneseText_def split: option.splits)

lemma testG_iff_suffix: "testG m s \<longleftrightarrow> (\<exists>pre t. s = pre @ t \<and> m t \<noteq> None)"
proof (induction s)
  case Nil
  then show ?case by simp
next
  case (Cons a s)
  show ?case
  proof
    assume "testG m (a # s)"
    then consider "m (a # s) \<noteq> None" | "testG m s" by auto
    then show "\<exists>pre t. a # s = pre @ t \<and> m t \<noteq> None"
    proof cases
      case 1
      then have "a # s = [] @ (a # s) \<and> m (a # s) \<noteq> None" by simp
      then show ?thesis by blast
    next
      case 2
      with Cons.IH obtain pre t where "s = pre @ t" "m t \<noteq> None" by blast
      then have "a # s = (a # pre) @ t \<and> m t \<noteq> None" by simp
      then show ?thesis by blast
    qed
  next
    assume "\<exists>pre t. a # s = pre @ t \<and> m t \<noteq> None"
    then obtain pre t where pt: "a # s = pre @ t" "m t \<noteq> None" by blast
    show "testG m (a # s)"
    proof (cases pre)
      case Nil
      with pt have "m (a # s) \<noteq> None" by auto
      then show ?thesis by simp
    next
      case (Cons b pre')
      with pt have "s = pre' @ t" by simp
      with pt(2) Cons.IH show ?thesis by auto
    qed
  qed
qed

lemma lazyClose_some:
  "isCloser c \<Longrightarrow> \<forall>x\<in>set mid. \<not> isLineTerminator x \<Longrightarrow> lazyClose (mid @ c # post) \<noteq> None"
  by (induction mid) auto

lemma testG_groupAt_iff:
  "testG groupAt s \<longleftrightarrow>
   (\<exists>pre opn mid c post. s = pre @ opn # mid @ c # post \<and> isOpener opn \<and> isCloser c \<and>
      (\<forall>x\<in>set mid. \<not> isLineTerminator x))"
proof
  assume "testG groupAt s"
  then obtain pre t n where t: "s = pre @ t" "groupAt t = Some n"
    unfolding testG_iff_suffix by auto
  from groupAt_shape[OF t(2)] obtain opn mid c where
    sh: "take n t = opn # mid @ [c]" "isOpener opn" "isCloser c"
        "\<forall>x\<in>set mid. \<not> isCloser x \<and> \<not> isLineTerminator x"
    by blast
  have "t = take n t @ drop n t" by simp
  with sh(1) have "t = opn # mid @ c # drop n t" by simp
  with t(1) have "s = pre @ opn # mid @ c # drop n t" by simp
  with sh show "\<exists>pre opn mid c post. s = pre @ opn # mid @ c # post \<and> isOpener opn \<and> isCloser c \<and>
      (\<forall>x\<in>set mid. \<not> isLineTerminator x)"
    by blast
next
  assume "\<exists>pre opn mid c post. s = pre @ opn # mid @ c # post \<and> isOpener opn \<and> isCloser c \<and>
      (\<forall>x\<in>set mid. \<not> isLineTerminator x)"
  then obtain pre opn mid c post where
    d: "s = pre @ opn # mid @ c # post" "isOpener opn" "isCloser c"
       "\<forall>x\<in>set mid. \<not> isLineTerminator x"
    by blast
  from lazyClose_some[OF d(3) d(4)] d(2) have "groupAt (opn # mid @ c # post) \<noteq> None"
    by auto
  with d(1) show "testG groupAt s" unfolding testG_iff_suffix by blast
qed

lemma wellPaired_inside:
  "wellPaired True s \<Longrightarrow> \<exists>n. lazyClose s = Some n \<and> wellPaired False (drop n s)"
proof (induction s)
  case Nil
  then show ?case by simp
next
  case (Cons a s)
  show ?case
  proof (cases "isCloser a")
    case True
    with Cons.prems show ?thesis by simp
  next
    case False
    with Cons.prems have "\<not> isLineTerminator a" "wellPaired True s" by auto
    with Cons.IH False show ?thesis by auto
  qed
qed

lemma wellPaired_replaceG:
  "wellPaired False s \<Longrightarrow> \<forall>x\<in>set (replaceG groupAt [] s). \<not> isParen x"
proof (induction groupAt s rule: scanG.induct)
  case 1
  then show ?case by (simp add: replaceG_def)
next
  case (2 c cs)
  show ?case
  proof (cases "isOpener c")
    case True
    with "2.prems" have "wellPaired True cs" by simp
    from wellPaired_inside[OF this] obtain n where
      n: "lazyClose cs = Some n" "wellPaired False (drop n cs)" by blast
    with True have g: "groupAt (c # cs) = Some (Suc n)" by simp
    then have "replaceG groupAt [] (c # cs) = replaceG groupAt [] (drop (Suc n) (c # cs))"
      by (simp add: replaceG_def)
    moreover from 2(3)[OF g] n(2)
    have "\<forall>x\<in>set (replaceG groupAt [] (drop (Suc n) (c # cs))). \<not> isParen x" by simp
    ultimately show ?thesis by simp
  next
    case False
    with "2.prems" have nc: "\<not> isCloser c" "wellPaired False cs" by auto
    from False have g: "groupAt (c # cs) = None" by simp
    then have "replaceG groupAt [] (c # cs) = c # replaceG groupAt [] cs"
      by (simp add: replaceG_def)
    with 2(1)[OF g nc(2)] False nc(1) show ?thesis by (simp add: isParen_def)
  qed
qed

lemma set_trim: "set (trim s) \<subseteq> set s"
proof -
  have "set (trimEnd (trimStart s)) \<subseteq> set (trimStart s)"
    unfolding trimEnd_def using set_dropWhileD by fastforce
  moreover have "set (trimStart s) \<subseteq> set s"
    unfolding trimStart_def using set_dropWhileD by fastforce
  ultimately show ?thesis by (auto simp: trim_def)
qed

lemma wellPaired_clean:
  "wellPaired False s \<Longrightarrow> \<not> list_ex isParen (cleanJapaneseText (Some s))"
  using wellPaired_replaceG[of s] set_trim[of "replaceG groupAt [] s"]
  by (auto simp: cleanJapaneseText_def list_ex_iff)

lemma splitOn_nonempty: "splitOn sep s \<noteq> []"
  by (induction s) (auto split: list.splits)

lemma splitOn_hd: "hd (splitOn sep s) = takeWhile (\<lambda>c. c \<noteq> sep) s"
  by (induction s) (auto split: list.splits simp: splitOn_nonempty)

lemma extractJapaneseOnly_first_line:
  "extractJapaneseOnly (Some t) =
     (if t = [] then []
      else cleanJapaneseText (Some (replaceG trailingGroupAt []
             (trim (takeWhile (\<lambda>c. c \<noteq> 0x0A) (replaceG tagAt [] (replaceG brAt [0x0A] t)))))))"
  by (simp add: extractJapaneseOnly_def Let_def splitOn_nonempty hd_conv_nth[symmetric] splitOn_hd)

section \<open>Facts about the speech request manager\<close>

lemma removed_shape:
  "g \<in> set (removedG groupAt s) \<Longrightarrow>
   \<exists>opn mid c. g = opn # mid @ [c] \<and> isOpener opn \<and> isCloser c \<and>
     (\<forall>x\<in>set mid. \<not> isCloser x \<and> \<not> isLineTerminator x)"
proof -
  assume "g \<in> set (removedG groupAt s)"
  then have "Match g \<in> set (scanG groupAt s)"
    by (auto simp: removedG_def split: piece.splits)
  from scanG_match_sound[OF this] consider "g = []" | t n where "groupAt t = Some n" "g = take n t"
    by blast
  then show ?thesis
  proof cases
    case 1
    have "Match [] \<notin> set (scanG groupAt s)"
    proof
      assume "Match [] \<in> set (scanG groupAt s)"
      then show False
      proof (induction groupAt s rule: scanG.induct)
        case 1
        then show ?case by simp
      next
        case (2 c cs)
        then show ?case
          by (auto split: option.splits if_splits dest: groupAt_bounds)
      qed
    qed
    with 1 \<open>Match g \<in> set (scanG groupAt s)\<close> show ?thesis by simp
  next
    case 2
    from groupAt_shape[OF 2(1)] 2(2) show ?thesis by simp
  qed
qed

lemmas effect_defs = returns_def throws_def andThen_def tryCatch_def consoleCall_def
  setTimeout_def synthCancel_def synthSpeak_def

lemma stopSpeech_eq:
  "stopSpeech w =
     (Inr (), w\<lparr>isSpeaking := False, currentUtterance := None,
                synth := (if speaking (synth w) then cancelAll (synth w) else synth w)\<rparr>)"
  by (simp add: stopSpeech_def effect_defs)

lemma trim_Nil: "trim [] = []"
  by (simp add: trim_def trimStart_def trimEnd_def)

lemma trim_clean: "trim (cleanJapaneseText t) = cleanJapaneseText t"
  by (simp add: cleanJapaneseText_def trim_idem trim_Nil split: option.splits)

lemma delayedAction_absorbs:
  "fst (delayedAction c r w) = Inr () \<and>
   (rejects (synth w) \<longrightarrow>
      snd (delayedAction c r w) =
        w\<lparr>currentUtterance := Some (newUtterance c r (voices (synth w))), isSpeaking := False,
          console := console w @ [Diag ConsoleError [Str (js ''TTS Error:''), Thrown SubmitFailure]]\<rparr>)"
  by (simp add: delayedAction_def submitBody_def submit_def effect_defs Let_def)

lemma delayedAction_part0_rejects:
  "rejects (synth w) \<Longrightarrow>
   delayedAction_part0 c r w =
     (Inl SubmitFailure, w\<lparr>currentUtterance := Some (newUtterance c r (voices (synth w)))\<rparr>)"
  by (simp add: delayedAction_part0_def submit_def effect_defs Let_def)

lemma calls_return:
  "fst (speakJapanese t r w) = Inr ()"
  "fst (speakJapanese_part0 t r w) = Inr ()"
  "fst (stopSpeech w) = Inr ()"
  "isTTSSpeaking w = (Inr (isSpeaking w), w)"
  by (simp_all add: speakJapanese_def speakJapanese_part0_def stopSpeech_eq isTTSSpeaking_def
      effect_defs Let_def)

lemma speakJapanese_nonempty:
  "cleanJapaneseText t \<noteq> [] \<Longrightarrow>
   speakJapanese t r w =
     (Inr (), w\<lparr>isSpeaking := False, currentUtterance := None,
                synth := (if speaking (synth w) then cancelAll (synth w) else synth w),
                timers := timers w @ [Timer 50 (cleanJapaneseText t) (rateOrDefault r)]\<rparr>)"
  by (simp add: speakJapanese_def trim_clean stopSpeech_eq effect_defs)

lemma speakJapanese_part0_nonempty:
  "cleanJapaneseText t \<noteq> [] \<Longrightarrow>
   speakJapanese_part0 t r w =
     (Inr (), w\<lparr>synth := (if speaking (synth w) \<or> pending (synth w) then cancelAll (synth w) else synth w),
                timers := timers w @ [Timer 500 (cleanJapaneseText t) (rateOrDefault r)]\<rparr>)"
  by (simp add: speakJapanese_part0_def effect_defs)

lemma delayedAction_accepts:
  "\<not> rejects (synth w) \<Longrightarrow>
   delayedAction c r w =
     (Inr (), w\<lparr>currentUtterance := Some (newUtterance c r (voices (synth w))), isSpeaking := True,
                synth := (synth w)\<lparr>queue := queue (synth w) @ [newUtterance c r (voices (synth w))],
                  requests := requests (synth w) @ [Submit (newUtterance c r (voices (synth w)))]\<rparr>\<rparr>)"
  by (simp add: delayedAction_def submitBody_def submit_def effect_defs Let_def)

lemma delayedAction_part0_accepts:
  "\<not> rejects (synth w) \<Longrightarrow>
   delayedAction_part0 c r w =
     (Inr (), w\<lparr>currentUtterance := Some (newUtterance c r (voices (synth w))),
                synth := (synth w)\<lparr>queue := queue (synth w) @ [newUtterance c r (voices (synth w))],
                  requests := requests (synth w) @ [Submit (newUtterance c r (voices (synth w)))]\<rparr>\<rparr>)"
  by (simp add: delayedAction_part0_def submit_def effect_defs Let_def)

lemma step_flag:
  "isSpeaking (step w e) \<Longrightarrow> isSpeaking w \<or> isStarted e \<or> isTimerFires e"
  by (cases e)
     (auto simp: step_def speakJapanese_def stopSpeech_eq isTTSSpeaking_def onend_def onerror_def
        initTTS_def voicesChanged_def effect_defs Let_def split: if_splits hook.splits)

lemma step_part0_flag:
  "isSpeaking (step_part0 w e) \<Longrightarrow> isSpeaking w \<or> isStarted e"
  by (cases e)
     (auto simp: step_part0_def speakJapanese_part0_def stopSpeech_eq isTTSSpeaking_def
        onend_part0_def onerror_part0_def delayedAction_part0_def submit_def
        initTTS_def voicesChanged_def effect_defs Let_def
        split: if_splits list.splits timer.splits hook.splits)

lemma run_flag:
  "isSpeaking (run w es) \<Longrightarrow> isSpeaking w \<or> list_ex (\<lambda>e. isStarted e \<or> isTimerFires e) es"
proof (induction es arbitrary: w)
  case Nil
  then show ?case by (simp add: run_def)
next
  case (Cons e es)
  from Cons.prems have "isSpeaking (run (step w e) es)" by (simp add: run_def)
  from Cons.IH[OF this] step_flag[of w e] show ?case by auto
qed

lemma run_part0_flag:
  "isSpeaking (run_part0 w es) \<Longrightarrow> isSpeaking w \<or> list_ex isStarted es"
proof (induction es arbitrary: w)
  case Nil
  then show ?case by (simp add: run_part0_def)
next
  case (Cons e es)
  from Cons.prems have "isSpeaking (run_part0 (step_part0 w e) es)" by (simp add: run_part0_def)
  from Cons.IH[OF this] step_part0_flag[of w e] show ?case by auto
qed

lemma run_append: "run w (a @ b) = run (run w a) b"
  by (simp add: run_def)

lemma run_part0_append: "run_part0 w (a @ b) = run_part0 (run_part0 w a) b"
  by (simp add: run_part0_def)

lemma run_Cons: "run w (e # es) = run (step w e) es"
  by (simp add: run_def)

lemma run_part0_Cons: "run_part0 w (e # es) = run_part0 (step_part0 w e) es"
  by (simp add: run_part0_def)

lemma step_quiet_timers: "quiet e \<Longrightarrow> timers (step w e) = timers w"
  by (cases e)
     (auto simp: step_def stopSpeech_eq isTTSSpeaking_def onstart_def onend_def onerror_def
        initTTS_def voicesChanged_def effect_defs Let_def split: hook.splits)

lemma step_part0_quiet_timers: "quiet e \<Longrightarrow> timers (step_part0 w e) = timers w"
  by (cases e)
     (auto simp: step_part0_def stopSpeech_eq isTTSSpeaking_def onstart_part0_def onend_part0_def
        onerror_part0_def initTTS_def voicesChanged_def effect_defs Let_def split: hook.splits)

lemma run_quiet_timers: "list_all quiet es \<Longrightarrow> timers (run w es) = timers w"
  by (induction es arbitrary: w) (simp_all add: run_def step_quiet_timers)

lemma run_part0_quiet_timers: "list_all quiet es \<Longrightarrow> timers (run_part0 w es) = timers w"
  by (induction es arbitrary: w) (simp_all add: run_part0_def step_part0_quiet_timers)

lemma step_harmless_queue: "harmless e \<Longrightarrow> queue (synth (step w e)) = queue (synth w)"
  by (cases e)
     (auto simp: step_def isTTSSpeaking_def onstart_def
        initTTS_def voicesChanged_def effect_defs Let_def split: hook.splits)

lemma step_part0_harmless_queue: "harmless e \<Longrightarrow> queue (synth (step_part0 w e)) = queue (synth w)"
  by (cases e)
     (auto simp: step_part0_def isTTSSpeaking_def onstart_part0_def
        initTTS_def voicesChanged_def effect_defs Let_def split: hook.splits)

lemma run_harmless_queue: "list_all harmless es \<Longrightarrow> queue (synth (run w es)) = queue (synth w)"
  by (induction es arbitrary: w) (simp_all add: run_def step_harmless_queue)

lemma run_part0_harmless_queue:
  "list_all harmless es \<Longrightarrow> queue (synth (run_part0 w es)) = queue (synth w)"
  by (induction es arbitrary: w) (simp_all add: run_part0_def step_part0_harmless_queue)

lemma step_CallSpeak:
  "cleanJapaneseText t \<noteq> [] \<Longrightarrow>
   step w (CallSpeak t r) =
     w\<lparr>isSpeaking := False, currentUtterance := None,
       synth := (if speaking (synth w) then cancelAll (synth w) else synth w),
       timers := timers w @ [Timer 50 (cleanJapaneseText t) (rateOrDefault r)]\<rparr>"
  by (simp add: step_def speakJapanese_nonempty)

lemma step_part0_CallSpeak:
  "cleanJapaneseText t \<noteq> [] \<Longrightarrow>
   step_part0 w (CallSpeak t r) =
     w\<lparr>synth := (if speaking (synth w) \<or> pending (synth w) then cancelAll (synth w) else synth w),
       timers := timers w @ [Timer 500 (cleanJapaneseText t) (rateOrDefault r)]\<rparr>"
  by (simp add: step_part0_def speakJapanese_part0_nonempty)

lemma delayedAction_timers: "timers (snd (delayedAction c r w)) = timers w"
  by (simp add: delayedAction_def submitBody_def submit_def effect_defs Let_def)

lemma delayedAction_part0_timers: "timers (snd (delayedAction_part0 c r w)) = timers w"
  by (simp add: delayedAction_part0_def submit_def effect_defs Let_def)

lemma step_TimerFires:
  "timers w = Timer d c r # ts \<Longrightarrow> step w TimerFires = snd (delayedAction c r (w\<lparr>timers := ts\<rparr>))"
  by (simp add: step_def)

lemma step_part0_TimerFires:
  "timers w = Timer d c r # ts \<Longrightarrow>
   step_part0 w TimerFires = snd (delayedAction_part0 c r (w\<lparr>timers := ts\<rparr>))"
  by (simp add: step_part0_def)

text \<open>One timer fires in a state that accepts submissions.\<close>

lemma step_TimerFires_accepts:
  "timers w = Timer d c r # ts \<Longrightarrow> \<not> rejects (synth w) \<Longrightarrow>
   step w TimerFires =
     w\<lparr>timers := ts, currentUtterance := Some (newUtterance c r (voices (synth w))), isSpeaking := True,
       synth := (synth w)\<lparr>queue := queue (synth w) @ [newUtterance c r (voices (synth w))],
         requests := requests (synth w) @ [Submit (newUtterance c r (voices (synth w)))]\<rparr>\<rparr>"
  by (simp add: step_TimerFires delayedAction_accepts)

lemma step_part0_TimerFires_accepts:
  "timers w = Timer d c r # ts \<Longrightarrow> \<not> rejects (synth w) \<Longrightarrow>
   step_part0 w TimerFires =
     w\<lparr>timers := ts, currentUtterance := Some (newUtterance c r (voices (synth w))),
       synth := (synth w)\<lparr>queue := queue (synth w) @ [newUtterance c r (voices (synth w))],
         requests := requests (synth w) @ [Submit (newUtterance c r (voices (synth w)))]\<rparr>\<rparr>"
  by (simp add: step_part0_TimerFires delayedAction_part0_accepts)

lemma rapid_pair:
  assumes "cleanJapaneseText t1 \<noteq> []" and "cleanJapaneseText t2 \<noteq> []" and "timers w = []"
    and "list_all quiet es1" and "list_all quiet es2" and "list_all quiet es3"
  shows
    "(let T1 = Timer 50 (cleanJapaneseText t1) (rateOrDefault r1);
          T2 = Timer 50 (cleanJapaneseText t2) (rateOrDefault r2);
          w1 = step w (CallSpeak t1 r1);
          wm = run w1 es1;
          w2 = step wm (CallSpeak t2 r2);
          wa = run w2 es2;
          wf = step wa TimerFires;
          wb = run wf es3;
          wc = step wb TimerFires;
          u1 = newUtterance (cleanJapaneseText t1) (rateOrDefault r1) (voices (synth wa));
          u2 = newUtterance (cleanJapaneseText t2) (rateOrDefault r2) (voices (synth wb))
      in run w (CallSpeak t1 r1 # es1 @ CallSpeak t2 r2 # es2 @ TimerFires # es3 @ [TimerFires]) = wc \<and>
         timers w1 = [T1] \<and>
         requests (synth w1) = requests (synth w) @ (if speaking (synth w) then [Cancel] else []) \<and>
         timers w2 = [T1, T2] \<and>
         requests (synth w2) = requests (synth wm) @ (if speaking (synth wm) then [Cancel] else []) \<and>
         timers wa = [T1, T2] \<and> timers wf = [T2] \<and> timers wb = [T2] \<and> timers wc = [] \<and>
         (\<not> rejects (synth wa) \<longrightarrow>
            requests (synth wf) = requests (synth wa) @ [Submit u1] \<and>
            queue (synth wf) = queue (synth wa) @ [u1]) \<and>
         (\<not> rejects (synth wb) \<longrightarrow>
            requests (synth wc) = requests (synth wb) @ [Submit u2] \<and>
            queue (synth wc) = queue (synth wb) @ [u2] \<and>
            currentUtterance wc = Some u2) \<and>
         (list_all harmless es3 \<and> \<not> rejects (synth wa) \<and> \<not> rejects (synth wb) \<longrightarrow>
            queue (synth wc) = queue (synth wa) @ [u1, u2]))"
proof -
  let ?T1 = "Timer 50 (cleanJapaneseText t1) (rateOrDefault r1)"
  let ?T2 = "Timer 50 (cleanJapaneseText t2) (rateOrDefault r2)"
  let ?w1 = "step w (CallSpeak t1 r1)"
  let ?wm = "run ?w1 es1"
  let ?w2 = "step ?wm (CallSpeak t2 r2)"
  let ?wa = "run ?w2 es2"
  let ?wf = "step ?wa TimerFires"
  let ?wb = "run ?wf es3"
  let ?wc = "step ?wb TimerFires"
  have whole: "run w (CallSpeak t1 r1 # es1 @ CallSpeak t2 r2 # es2 @ TimerFires # es3 @ [TimerFires]) = ?wc"
    by (simp add: run_def)
  have t1: "timers ?w1 = [?T1]"
    using assms(1,3) by (simp add: step_CallSpeak)
  have r1: "requests (synth ?w1) = requests (synth w) @ (if speaking (synth w) then [Cancel] else [])"
    using assms(1) by (simp add: step_CallSpeak cancelAll_def)
  have tm: "timers ?wm = [?T1]"
    using assms(4) t1 by (simp add: run_quiet_timers)
  have t2: "timers ?w2 = [?T1, ?T2]"
    using assms(2) tm by (simp add: step_CallSpeak)
  have r2: "requests (synth ?w2) = requests (synth ?wm) @ (if speaking (synth ?wm) then [Cancel] else [])"
    using assms(2) by (simp add: step_CallSpeak cancelAll_def)
  have ta: "timers ?wa = [?T1, ?T2]"
    using assms(5) t2 by (simp add: run_quiet_timers)
  have tf: "timers ?wf = [?T2]"
    by (simp add: step_TimerFires[OF ta] delayedAction_timers)
  have sf: "requests (synth ?wf) =
        requests (synth ?wa) @ [Submit (newUtterance (cleanJapaneseText t1) (rateOrDefault r1) (voices (synth ?wa)))] \<and>
      queue (synth ?wf) =
        queue (synth ?wa) @ [newUtterance (cleanJapaneseText t1) (rateOrDefault r1) (voices (synth ?wa))]"
    if "\<not> rejects (synth ?wa)"
    by (simp add: step_TimerFires_accepts[OF ta that])
  have tb: "timers ?wb = [?T2]"
    using assms(6) tf by (simp add: run_quiet_timers)
  have tc: "timers ?wc = []"
    by (simp add: step_TimerFires[OF tb] delayedAction_timers)
  have sc: "requests (synth ?wc) =
        requests (synth ?wb) @ [Submit (newUtterance (cleanJapaneseText t2) (rateOrDefault r2) (voices (synth ?wb)))] \<and>
      queue (synth ?wc) =
        queue (synth ?wb) @ [newUtterance (cleanJapaneseText t2) (rateOrDefault r2) (voices (synth ?wb))] \<and>
      currentUtterance ?wc =
        Some (newUtterance (cleanJapaneseText t2) (rateOrDefault r2) (voices (synth ?wb)))"
    if "\<not> rejects (synth ?wb)"
    by (simp add: step_TimerFires_accepts[OF tb that])
  have hq: "queue (synth ?wb) = queue (synth ?wf)" if "list_all harmless es3"
    using that by (rule run_harmless_queue)
  have both: "queue (synth ?wc) =
      queue (synth ?wa) @ [newUtterance (cleanJapaneseText t1) (rateOrDefault r1) (voices (synth ?wa)),
                           newUtterance (cleanJapaneseText t2) (rateOrDefault r2) (voices (synth ?wb))]"
    if "list_all harmless es3" "\<not> rejects (synth ?wa)" "\<not> rejects (synth ?wb)"
    using sf[OF that(2)] sc[OF that(3)] hq[OF that(1)] by simp
  show ?thesis
    unfolding Let_def using whole t1 r1 t2 r2 ta tf tb tc sf sc both by blast
qed

lemma rapid_pair_part0:
  assumes "cleanJapaneseText t1 \<noteq> []" and "cleanJapaneseText t2 \<noteq> []" and "timers w = []"
    and "list_all quiet es1" and "list_all quiet es2" and "list_all quiet es3"
  shows
    "(let T1 = Timer 500 (cleanJapaneseText t1) (rateOrDefault r1);
          T2 = Timer 500 (cleanJapaneseText t2) (rateOrDefault r2);
          w1 = step_part0 w (CallSpeak t1 r1);
          wm = run_part0 w1 es1;
          w2 = step_part0 wm (CallSpeak t2 r2);
          wa = run_part0 w2 es2;
          wf = step_part0 wa TimerFires;
          wb = run_part0 wf es3;
          wc = step_part0 wb TimerFires;
          u1 = newUtterance (cleanJapaneseText t1) (rateOrDefault r1) (voices (synth wa));
          u2 = newUtterance (cleanJapaneseText t2) (rateOrDefault r2) (voices (synth wb))
      in run_part0 w (CallSpeak t1 r1 # es1 @ CallSpeak t2 r2 # es2 @ TimerFires # es3 @ [TimerFires]) = wc \<and>
         timers w1 = [T1] \<and>
         requests (synth w1) = requests (synth w) @ (if speaking (synth w) \<or> pending (synth w) then [Cancel] else []) \<and>
         timers w2 = [T1, T2] \<and>
         requests (synth w2) = requests (synth wm) @ (if speaking (synth wm) \<or> pending (synth wm) then [Cancel] else []) \<and>
         timers wa = [T1, T2] \<and> timers wf = [T2] \<and> timers wb = [T2] \<and> timers wc = [] \<and>
         (\<not> rejects (synth wa) \<longrightarrow>
            requests (synth wf) = requests (synth wa) @ [Submit u1] \<and>
            queue (synth wf) = queue (synth wa) @ [u1]) \<and>
         (\<not> rejects (synth wb) \<longrightarrow>
            requests (synth wc) = requests (synth wb) @ [Submit u2] \<and>
            queue (synth wc) = queue (synth wb) @ [u2] \<and>
            currentUtterance wc = Some u2) \<and>
         (list_all harmless es3 \<and> \<not> rejects (synth wa) \<and> \<not> rejects (synth wb) \<longrightarrow>
            queue (synth wc) = queue (synth wa) @ [u1, u2]))"
proof -
  let ?T1 = "Timer 500 (cleanJapaneseText t1) (rateOrDefault r1)"
  let ?T2 = "Timer 500 (cleanJapaneseText t2) (rateOrDefault r2)"
  let ?w1 = "step_part0 w (CallSpeak t1 r1)"
  let ?wm = "run_part0 ?w1 es1"
  let ?w2 = "step_part0 ?wm (CallSpeak t2 r2)"
  let ?wa = "run_part0 ?w2 es2"
  let ?wf = "step_part0 ?wa TimerFires"
  let ?wb = "run_part0 ?wf es3"
  let ?wc = "step_part0 ?wb TimerFires"
  have whole: "run_part0 w (CallSpeak t1 r1 # es1 @ CallSpeak t2 r2 # es2 @ TimerFires # es3 @ [TimerFires]) = ?wc"
    by (simp add: run_part0_def)
  have t1: "timers ?w1 = [?T1]"
    using assms(1,3) by (simp add: step_part0_CallSpeak)
  have r1: "requests (synth ?w1) = requests (synth w) @ (if speaking (synth w) \<or> pending (synth w) then [Cancel] else [])"
    using assms(1) by (simp add: step_part0_CallSpeak cancelAll_def)
  have tm: "timers ?wm = [?T1]"
    using assms(4) t1 by (simp add: run_part0_quiet_timers)
  have t2: "timers ?w2 = [?T1, ?T2]"
    using assms(2) tm by (simp add: step_part0_CallSpeak)
  have r2: "requests (synth ?w2) = requests (synth ?wm) @ (if speaking (synth ?wm) \<or> pending (synth ?wm) then [Cancel] else [])"
    using assms(2) by (simp add: step_part0_CallSpeak cancelAll_def)
  have ta: "timers ?wa = [?T1, ?T2]"
    using assms(5) t2 by (simp add: run_part0_quiet_timers)
  have tf: "timers ?wf = [?T2]"
    by (simp add: step_part0_TimerFires[OF ta] delayedAction_part0_timers)
  have sf: "requests (synth ?wf) =
        requests (synth ?wa) @ [Submit (newUtterance (cleanJapaneseText t1) (rateOrDefault r1) (voices (synth ?wa)))] \<and>
      queue (synth ?wf) =
        queue (synth ?wa) @ [newUtterance (cleanJapaneseText t1) (rateOrDefault r1) (voices (synth ?wa))]"
    if "\<not> rejects (synth ?wa)"
    by (simp add: step_part0_TimerFires_accepts[OF ta that])
  have tb: "timers ?wb = [?T2]"
    using assms(6) tf by (simp add: run_part0_quiet_timers)
  have tc: "timers ?wc = []"
    by (simp add: step_part0_TimerFires[OF tb] delayedAction_part0_timers)
  have sc: "requests (synth ?wc) =
        requests (synth ?wb) @ [Submit (newUtterance (cleanJapaneseText t2) (rateOrDefault r2) (voices (synth ?wb)))] \<and>
      queue (synth ?wc) =
        queue (synth ?wb) @ [newUtterance (cleanJapaneseText t2) (rateOrDefault r2) (voices (synth ?wb))] \<and>
      currentUtterance ?wc =
        Some (newUtterance (cleanJapaneseText t2) (rateOrDefault r2) (voices (synth ?wb)))"
    if "\<not> rejects (synth ?wb)"
    by (simp add: step_part0_TimerFires_accepts[OF tb that])
  have hq: "queue (synth ?wb) = queue (synth ?wf)" if "list_all harmless es3"
    using that by (rule run_part0_harmless_queue)
  have both: "queue (synth ?wc) =
      queue (synth ?wa) @ [newUtterance (cleanJapaneseText t1) (rateOrDefault r1) (voices (synth ?wa)),
                           newUtterance (cleanJapaneseText t2) (rateOrDefault r2) (voices (synth ?wb))]"
    if "list_all harmless es3" "\<not> rejects (synth ?wa)" "\<not> rejects (synth ?wb)"
    using sf[OF that(2)] sc[OF that(3)] hq[OF that(1)] by simp
  show ?thesis
    unfolding Let_def using whole t1 r1 t2 r2 ta tf tb tc sf sc both by blast
qed

lemma rapid_pair_undisturbed:
  assumes "cleanJapaneseText t1 \<noteq> []" and "cleanJapaneseText t2 \<noteq> []"
    and "timers w = []" and "\<not> rejects (synth w)"
  shows
    "(let u1 = newUtterance (cleanJapaneseText t1) (rateOrDefault r1) (voices (synth w));
          u2 = newUtterance (cleanJapaneseText t2) (rateOrDefault r2) (voices (synth w));
          w2 = run w [CallSpeak t1 r1, CallSpeak t2 r2];
          w4 = run w2 [TimerFires, TimerFires]
      in timers w2 = [Timer 50 (cleanJapaneseText t1) (rateOrDefault r1),
                      Timer 50 (cleanJapaneseText t2) (rateOrDefault r2)] \<and>
         requests (synth w2) = requests (synth w) @ (if speaking (synth w) then [Cancel] else []) \<and>
         queue (synth w2) = (if speaking (synth w) then [] else queue (synth w)) \<and>
         timers w4 = [] \<and>
         requests (synth w4) = requests (synth w2) @ [Submit u1, Submit u2] \<and>
         queue (synth w4) = queue (synth w2) @ [u1, u2] \<and>
         currentUtterance w4 = Some u2) \<and>
     (let u1 = newUtterance (cleanJapaneseText t1) (rateOrDefault r1) (voices (synth w));
          u2 = newUtterance (cleanJapaneseText t2) (rateOrDefault r2) (voices (synth w));
          w2 = run_part0 w [CallSpeak t1 r1, CallSpeak t2 r2];
          w4 = run_part0 w2 [TimerFires, TimerFires]
      in timers w2 = [Timer 500 (cleanJapaneseText t1) (rateOrDefault r1),
                      Timer 500 (cleanJapaneseText t2) (rateOrDefault r2)] \<and>
         requests (synth w2) =
           requests (synth w) @ (if speaking (synth w) \<or> pending (synth w) then [Cancel] else []) \<and>
         queue (synth w2) = (if speaking (synth w) \<or> pending (synth w) then [] else queue (synth w)) \<and>
         timers w4 = [] \<and>
         requests (synth w4) = requests (synth w2) @ [Submit u1, Submit u2] \<and>
         queue (synth w4) = queue (synth w2) @ [u1, u2] \<and>
         currentUtterance w4 = Some u2)"
proof -
  have a: "run w [CallSpeak t1 r1, CallSpeak t2 r2] =
      w\<lparr>isSpeaking := False, currentUtterance := None,
        synth := (if speaking (synth w) then cancelAll (synth w) else synth w),
        timers := [Timer 50 (cleanJapaneseText t1) (rateOrDefault r1),
                   Timer 50 (cleanJapaneseText t2) (rateOrDefault r2)]\<rparr>"
    using assms by (simp add: run_def step_def speakJapanese_nonempty cancelAll_def)
  have b: "run_part0 w [CallSpeak t1 r1, CallSpeak t2 r2] =
      w\<lparr>synth := (if speaking (synth w) \<or> pending (synth w) then cancelAll (synth w) else synth w),
        timers := [Timer 500 (cleanJapaneseText t1) (rateOrDefault r1),
                   Timer 500 (cleanJapaneseText t2) (rateOrDefault r2)]\<rparr>"
    using assms by (simp add: run_part0_def step_part0_def speakJapanese_part0_nonempty cancelAll_def pending_def)
  have r: "\<not> rejects (if speaking (synth w) then cancelAll (synth w) else synth w)"
    "\<not> rejects (if speaking (synth w) \<or> pending (synth w) then cancelAll (synth w) else synth w)"
    "voices (cancelAll (synth w)) = voices (synth w)"
    using assms by (simp_all add: cancelAll_def)
  show ?thesis
    unfolding a b Let_def using r
    by (simp add: run_def step_def run_part0_def step_part0_def delayedAction_accepts
        delayedAction_part0_accepts cancelAll_def)
qed

section \<open>The claims\<close>

subsection \<open>C1\<close>

text \<open>
  Claim C1, as stated, fails: two \<open>speakJapanese("test")\<close> calls in a row, then both timers.
  No timer handle is kept and \<open>clearTimeout\<close> is never called, so both delayed actions run
  and the capability holds two unresolved utterances, in either file.
\<close>

theorem rapid_speak_two_outstanding_counterexample:
  "length (queue (synth (run (initWorld [])
     [CallSpeak (Some (js ''test'')) None, CallSpeak (Some (js ''test'')) None,
      TimerFires, TimerFires]))) = 2 \<and>
   length (queue (synth (run_part0 (initWorld [])
     [CallSpeak (Some (js ''test'')) None, CallSpeak (Some (js ''test'')) None,
      TimerFires, TimerFires]))) = 2"
  by code_simp

text \<open>
  Claim C1, amended. Two calls with non-empty cleaned text, the second before the first
  timer fires, starting with no timer pending; between the calls and the timers anything
  may happen but a further \<open>speakJapanese\<close> call or timer (\<open>es1\<close>, \<open>es2\<close>, \<open>es3\<close>). Each call
  cancels the capability only if it reports \<open>speaking\<close> (in part_000 \<open>speaking\<close> or
  \<open>pending\<close>) at that moment, and leaves the earlier scheduled submission in place. Both
  delayed actions run, in call order, and each submits its utterance, which joins the
  capability's queue, whenever the capability accepts submissions at that moment; after the
  second, \<open>currentUtterance\<close> is the second utterance. If no \<open>stopSpeech\<close> call and no end or
  error notification comes between the two timers and both submissions are accepted, both
  utterances are in the queue, the second behind the first. The last conjunct is the case
  where nothing at all comes in between and the capability accepts from the start.
\<close>

theorem rapid_speak_both_submitted:
  assumes "cleanJapaneseText t1 \<noteq> []" and "cleanJapaneseText t2 \<noteq> []" and "timers w = []"
    and "list_all quiet es1" and "list_all quiet es2" and "list_all quiet es3"
  shows
    "(let T1 = Timer 50 (cleanJapaneseText t1) (rateOrDefault r1);
          T2 = Timer 50 (cleanJapaneseText t2) (rateOrDefault r2);
          w1 = step w (CallSpeak t1 r1);
          wm = run w1 es1;
          w2 = step wm (CallSpeak t2 r2);
          wa = run w2 es2;
          wf = step wa TimerFires;
          wb = run wf es3;
          wc = step wb TimerFires;
          u1 = newUtterance (cleanJapaneseText t1) (rateOrDefault r1) (voices (synth wa));
          u2 = newUtterance (cleanJapaneseText t2) (rateOrDefault r2) (voices (synth wb))
      in run w (CallSpeak t1 r1 # es1 @ CallSpeak t2 r2 # es2 @ TimerFires # es3 @ [TimerFires]) = wc \<and>
         timers w1 = [T1] \<and>
         requests (synth w1) = requests (synth w) @ (if speaking (synth w) then [Cancel] else []) \<and>
         timers w2 = [T1, T2] \<and>
         requests (synth w2) = requests (synth wm) @ (if speaking (synth wm) then [Cancel] else []) \<and>
         timers wa = [T1, T2] \<and> timers wf = [T2] \<and> timers wb = [T2] \<and> timers wc = [] \<and>
         (\<not> rejects (synth wa) \<longrightarrow>
            requests (synth wf) = requests (synth wa) @ [Submit u1] \<and>
            queue (synth wf) = queue (synth wa) @ [u1]) \<and>
         (\<not> rejects (synth wb) \<longrightarrow>
            requests (synth wc) = requests (synth wb) @ [Submit u2] \<and>
            queue (synth wc) = queue (synth wb) @ [u2] \<and>
            currentUtterance wc = Some u2) \<and>
         (list_all harmless es3 \<and> \<not> rejects (synth wa) \<and> \<not> rejects (synth wb) \<longrightarrow>
            queue (synth wc) = queue (synth wa) @ [u1, u2])) \<and>
     (let T1 = Timer 500 (cleanJapaneseText t1) (rateOrDefault r1);
          T2 = Timer 500 (cleanJapaneseText t2) (rateOrDefault r2);
          w1 = step_part0 w (CallSpeak t1 r1);
          wm = run_part0 w1 es1;
          w2 = step_part0 wm (CallSpeak t2 r2);
          wa = run_part0 w2 es2;
          wf = step_part0 wa TimerFires;
          wb = run_part0 wf es3;
          wc = step_part0 wb TimerFires;
          u1 = newUtterance (cleanJapaneseText t1) (rateOrDefault r1) (voices (synth wa));
          u2 = newUtterance (cleanJapaneseText t2) (rateOrDefault r2) (voices (synth wb))
      in run_part0 w (CallSpeak t1 r1 # es1 @ CallSpeak t2 r2 # es2 @ TimerFires # es3 @ [TimerFires]) = wc \<and>
         timers w1 = [T1] \<and>
         requests (synth w1) = requests (synth w) @ (if speaking (synth w) \<or> pending (synth w) then [Cancel] else []) \<and>
         timers w2 = [T1, T2] \<and>
         requests (synth w2) = requests (synth wm) @ (if speaking (synth wm) \<or> pending (synth wm) then [Cancel] else []) \<and>
         timers wa = [T1, T2] \<and> timers wf = [T2] \<and> timers wb = [T2] \<and> timers wc = [] \<and>
         (\<not> rejects (synth wa) \<longrightarrow>
            requests (synth wf) = requests (synth wa) @ [Submit u1] \<and>
            queue (synth wf) = queue (synth wa) @ [u1]) \<and>
         (\<not> rejects (synth wb) \<longrightarrow>
            requests (synth wc) = requests (synth wb) @ [Submit u2] \<and>
            queue (synth wc) = queue (synth wb) @ [u2] \<and>
            currentUtterance wc = Some u2) \<and>
         (list_all harmless es3 \<and> \<not> rejects (synth wa) \<and> \<not> rejects (synth wb) \<longrightarrow>
            queue (synth wc) = queue (synth wa) @ [u1, u2])) \<and>
     (\<not> rejects (synth w) \<longrightarrow>
      (let u1 = newUtterance (cleanJapaneseText t1) (rateOrDefault r1) (voices (synth w));
          u2 = newUtterance (cleanJapaneseText t2) (rateOrDefault r2) (voices (synth w));
          w2 = run w [CallSpeak t1 r1, CallSpeak t2 r2];
          w4 = run w2 [TimerFires, TimerFires]
      in timers w2 = [Timer 50 (cleanJapaneseText t1) (rateOrDefault r1),
                      Timer 50 (cleanJapaneseText t2) (rateOrDefault r2)] \<and>
         requests (synth w2) = requests (synth w) @ (if speaking (synth w) then [Cancel] else []) \<and>
         queue (synth w2) = (if speaking (synth w) then [] else queue (synth w)) \<and>
         timers w4 = [] \<and>
         requests (synth w4) = requests (synth w2) @ [Submit u1, Submit u2] \<and>
         queue (synth w4) = queue (synth w2) @ [u1, u2] \<and>
         currentUtterance w4 = Some u2) \<and>
     (let u1 = newUtterance (cleanJapaneseText t1) (rateOrDefault r1) (voices (synth w));
          u2 = newUtterance (cleanJapaneseText t2) (rateOrDefault r2) (voices (synth w));
          w2 = run_part0 w [CallSpeak t1 r1, CallSpeak t2 r2];
          w4 = run_part0 w2 [TimerFires, TimerFires]
      in timers w2 = [Timer 500 (cleanJapaneseText t1) (rateOrDefault r1),
                      Timer 500 (cleanJapaneseText t2) (rateOrDefault r2)] \<and>
         requests (synth w2) =
           requests (synth w) @ (if speaking (synth w) \<or> pending (synth w) then [Cancel] else []) \<and>
         queue (synth w2) = (if speaking (synth w) \<or> pending (synth w) then [] else queue (synth w)) \<and>
         timers w4 = [] \<and>
         requests (synth w4) = requests (synth w2) @ [Submit u1, Submit u2] \<and>
         queue (synth w4) = queue (synth w2) @ [u1, u2] \<and>
         currentUtterance w4 = Some u2))"
proof (intro conjI impI)
  show "(let T1 = Timer 50 (cleanJapaneseText t1) (rateOrDefault r1);
          T2 = Timer 50 (cleanJapaneseText t2) (rateOrDefault r2);
          w1 = step w (CallSpeak t1 r1);
          wm = run w1 es1;
          w2 = step wm (CallSpeak t2 r2);
          wa = run w2 es2;
          wf = step wa TimerFires;
          wb = run wf es3;
          wc = step wb TimerFires;
          u1 = newUtterance (cleanJapaneseText t1) (rateOrDefault r1) (voices (synth wa));
          u2 = newUtterance (cleanJapaneseText t2) (rateOrDefault r2) (voices (synth wb))
      in run w (CallSpeak t1 r1 # es1 @ CallSpeak t2 r2 # es2 @ TimerFires # es3 @ [TimerFires]) = wc \<and>
         timers w1 = [T1] \<and>
         requests (synth w1) = requests (synth w) @ (if speaking (synth w) then [Cancel] else []) \<and>
         timers w2 = [T1, T2] \<and>
         requests (synth w2) = requests (synth wm) @ (if speaking (synth wm) then [Cancel] else []) \<and>
         timers wa = [T1, T2] \<and> timers wf = [T2] \<and> timers wb = [T2] \<and> timers wc = [] \<and>
         (\<not> rejects (synth wa) \<longrightarrow>
            requests (synth wf) = requests (synth wa) @ [Submit u1] \<and>
            queue (synth wf) = queue (synth wa) @ [u1]) \<and>
         (\<not> rejects (synth wb) \<longrightarrow>
            requests (synth wc) = requests (synth wb) @ [Submit u2] \<and>
            queue (synth wc) = queue (synth wb) @ [u2] \<and>
            currentUtterance wc = Some u2) \<and>
         (list_all harmless es3 \<and> \<not> rejects (synth wa) \<and> \<not> rejects (synth wb) \<longrightarrow>
            queue (synth wc) = queue (synth wa) @ [u1, u2]))"
    using assms by (rule rapid_pair)
  show "(let T1 = Timer 500 (cleanJapaneseText t1) (rateOrDefault r1);
          T2 = Timer 500 (cleanJapaneseText t2) (rateOrDefault r2);
          w1 = step_part0 w (CallSpeak t1 r1);
          wm = run_part0 w1 es1;
          w2 = step_part0 wm (CallSpeak t2 r2);
          wa = run_part0 w2 es2;
          wf = step_part0 wa TimerFires;
          wb = run_part0 wf es3;
          wc = step_part0 wb TimerFires;
          u1 = newUtterance (cleanJapaneseText t1) (rateOrDefault r1) (voices (synth wa));
          u2 = newUtterance (cleanJapaneseText t2) (rateOrDefault r2) (voices (synth wb))
      in run_part0 w (CallSpeak t1 r1 # es1 @ CallSpeak t2 r2 # es2 @ TimerFires # es3 @ [TimerFires]) = wc \<and>
         timers w1 = [T1] \<and>
         requests (synth w1) = requests (synth w) @ (if speaking (synth w) \<or> pending (synth w) then [Cancel] else []) \<and>
         timers w2 = [T1, T2] \<and>
         requests (synth w2) = requests (synth wm) @ (if speaking (synth wm) \<or> pending (synth wm) then [Cancel] else []) \<and>
         timers wa = [T1, T2] \<and> timers wf = [T2] \<and> timers wb = [T2] \<and> timers wc = [] \<and>
         (\<not> rejects (synth wa) \<longrightarrow>
            requests (synth wf) = requests (synth wa) @ [Submit u1] \<and>
            queue (synth wf) = queue (synth wa) @ [u1]) \<and>
         (\<not> rejects (synth wb) \<longrightarrow>
            requests (synth wc) = requests (synth wb) @ [Submit u2] \<and>
            queue (synth wc) = queue (synth wb) @ [u2] \<and>
            currentUtterance wc = Some u2) \<and>
         (list_all harmless es3 \<and> \<not> rejects (synth wa) \<and> \<not> rejects (synth wb) \<longrightarrow>
            queue (synth wc) = queue (synth wa) @ [u1, u2]))"
    using assms by (rule rapid_pair_part0)
  assume "\<not> rejects (synth w)"
  with assms(1,2,3) have old: "(let u1 = newUtterance (cleanJapaneseText t1) (rateOrDefault r1) (voices (synth w));
          u2 = newUtterance (cleanJapaneseText t2) (rateOrDefault r2) (voices (synth w));
          w2 = run w [CallSpeak t1 r1, CallSpeak t2 r2];
          w4 = run w2 [TimerFires, TimerFires]
      in timers w2 = [Timer 50 (cleanJapaneseText t1) (rateOrDefault r1),
                      Timer 50 (cleanJapaneseText t2) (rateOrDefault r2)] \<and>
         requests (synth w2) = requests (synth w) @ (if speaking (synth w) then [Cancel] else []) \<and>
         queue (synth w2) = (if speaking (synth w) then [] else queue (synth w)) \<and>
         timers w4 = [] \<and>
         requests (synth w4) = requests (synth w2) @ [Submit u1, Submit u2] \<and>
         queue (synth w4) = queue (synth w2) @ [u1, u2] \<and>
         currentUtterance w4 = Some u2) \<and>
     (let u1 = newUtterance (cleanJapaneseText t1) (rateOrDefault r1) (voices (synth w));
          u2 = newUtterance (cleanJapaneseText t2) (rateOrDefault r2) (voices (synth w));
          w2 = run_part0 w [CallSpeak t1 r1, CallSpeak t2 r2];
          w4 = run_part0 w2 [TimerFires, TimerFires]
      in timers w2 = [Timer 500 (cleanJapaneseText t1) (rateOrDefault r1),
                      Timer 500 (cleanJapaneseText t2) (rateOrDefault r2)] \<and>
         requests (synth w2) =
           requests (synth w) @ (if speaking (synth w) \<or> pending (synth w) then [Cancel] else []) \<and>
         queue (synth w2) = (if speaking (synth w) \<or> pending (synth w) then [] else queue (synth w)) \<and>
         timers w4 = [] \<and>
         requests (synth w4) = requests (synth w2) @ [Submit u1, Submit u2] \<and>
         queue (synth w4) = queue (synth w2) @ [u1, u2] \<and>
         currentUtterance w4 = Some u2)"
    by (rule rapid_pair_undisturbed)
  from old show "(let u1 = newUtterance (cleanJapaneseText t1) (rateOrDefault r1) (voices (synth w));
          u2 = newUtterance (cleanJapaneseText t2) (rateOrDefault r2) (voices (synth w));
          w2 = run w [CallSpeak t1 r1, CallSpeak t2 r2];
          w4 = run w2 [TimerFires, TimerFires]
      in timers w2 = [Timer 50 (cleanJapaneseText t1) (rateOrDefault r1),
                      Timer 50 (cleanJapaneseText t2) (rateOrDefault r2)] \<and>
         requests (synth w2) = requests (synth w) @ (if speaking (synth w) then [Cancel] else []) \<and>
         queue (synth w2) = (if speaking (synth w) then [] else queue (synth w)) \<and>
         timers w4 = [] \<and>
         requests (synth w4) = requests (synth w2) @ [Submit u1, Submit u2] \<and>
         queue (synth w4) = queue (synth w2) @ [u1, u2] \<and>
         currentUtterance w4 = Some u2)" by (rule conjunct1)
  from old show "(let u1 = newUtterance (cleanJapaneseText t1) (rateOrDefault r1) (voices (synth w));
          u2 = newUtterance (cleanJapaneseText t2) (rateOrDefault r2) (voices (synth w));
          w2 = run_part0 w [CallSpeak t1 r1, CallSpeak t2 r2];
          w4 = run_part0 w2 [TimerFires, TimerFires]
      in timers w2 = [Timer 500 (cleanJapaneseText t1) (rateOrDefault r1),
                      Timer 500 (cleanJapaneseText t2) (rateOrDefault r2)] \<and>
         requests (synth w2) =
           requests (synth w) @ (if speaking (synth w) \<or> pending (synth w) then [Cancel] else []) \<and>
         queue (synth w2) = (if speaking (synth w) \<or> pending (synth w) then [] else queue (synth w)) \<and>
         timers w4 = [] \<and>
         requests (synth w4) = requests (synth w2) @ [Submit u1, Submit u2] \<and>
         queue (synth w4) = queue (synth w2) @ [u1, u2] \<and>
         currentUtterance w4 = Some u2)" by (rule conjunct2)
qed

text \<open>
  C1's theorem for \<open>speakJapanese("a")\<close> and \<open>speakJapanese("b")\<close> at module load, with a status
  call before the timers and the first utterance's start notification between them.
\<close>

theorem rapid_speak_both_submitted_witness:
  "cleanJapaneseText (Some (js ''a'')) \<noteq> [] \<and> cleanJapaneseText (Some (js ''b'')) \<noteq> [] \<and>
   timers (initWorld []) = [] \<and> \<not> rejects (synth (initWorld [])) \<and>
   list_all quiet [CallIsSpeaking] \<and>
   list_all harmless [Started (newUtterance (js ''a'') (85 / 100) [])] \<and>
   queue (synth (run (initWorld [])
     [CallSpeak (Some (js ''a'')) None, CallSpeak (Some (js ''b'')) None, CallIsSpeaking,
      TimerFires, Started (newUtterance (js ''a'') (85 / 100) []), TimerFires])) =
     [newUtterance (js ''a'') (85 / 100) [], newUtterance (js ''b'') (85 / 100) []] \<and>
   queue (synth (run_part0 (initWorld [])
     [CallSpeak (Some (js ''a'')) None, CallSpeak (Some (js ''b'')) None, CallIsSpeaking,
      TimerFires, Started (newUtterance (js ''a'') (85 / 100) []), TimerFires])) =
     [newUtterance (js ''a'') (85 / 100) [], newUtterance (js ''b'') (85 / 100) []]"
proof -
  let ?A = "Some (js ''a'')" and ?B = "Some (js ''b'')"
  let ?ua = "newUtterance (js ''a'') (85 / 100) []"
  have ca: "cleanJapaneseText ?A = js ''a''" and cb: "cleanJapaneseText ?B = js ''b''"
    by code_simp+
  have h1: "cleanJapaneseText ?A \<noteq> []" and h2: "cleanJapaneseText ?B \<noteq> []"
    using ca cb by (simp_all add: js_def)
  have h3: "timers (initWorld []) = []" and h0: "\<not> rejects (synth (initWorld []))"
    by (simp_all add: initWorld_def)
  have q1: "list_all quiet []" and q2: "list_all quiet [CallIsSpeaking]"
    and q3: "list_all quiet [Started ?ua]" and q4: "list_all harmless [Started ?ua]"
    by simp_all
  let ?wa = "run (step (run (step (initWorld []) (CallSpeak ?A None)) []) (CallSpeak ?B None)) [CallIsSpeaking]"
  let ?wb = "run (step ?wa TimerFires) [Started ?ua]"
  have ea: "\<not> rejects (synth ?wa)" "queue (synth ?wa) = []" "voices (synth ?wa) = []"
    by code_simp+
  have eb: "\<not> rejects (synth ?wb)" "voices (synth ?wb) = []"
    by code_simp+
  let ?pa = "run_part0 (step_part0 (run_part0 (step_part0 (initWorld []) (CallSpeak ?A None)) []) (CallSpeak ?B None)) [CallIsSpeaking]"
  let ?pb = "run_part0 (step_part0 ?pa TimerFires) [Started ?ua]"
  have fa: "\<not> rejects (synth ?pa)" "queue (synth ?pa) = []" "voices (synth ?pa) = []"
    by code_simp+
  have fb: "\<not> rejects (synth ?pb)" "voices (synth ?pb) = []"
    by code_simp+
  note t = rapid_speak_both_submitted[OF h1 h2 h3 q1 q2 q3, of None None, unfolded Let_def]
  from t q4 ea eb have
    "queue (synth (run (initWorld [])
       (CallSpeak ?A None # [] @ CallSpeak ?B None # [CallIsSpeaking] @ TimerFires # [Started ?ua] @ [TimerFires]))) =
     [] @ [newUtterance (cleanJapaneseText ?A) (rateOrDefault None) [],
           newUtterance (cleanJapaneseText ?B) (rateOrDefault None) []]"
    by metis
  moreover from t q4 fa fb have
    "queue (synth (run_part0 (initWorld [])
       (CallSpeak ?A None # [] @ CallSpeak ?B None # [CallIsSpeaking] @ TimerFires # [Started ?ua] @ [TimerFires]))) =
     [] @ [newUtterance (cleanJapaneseText ?A) (rateOrDefault None) [],
           newUtterance (cleanJapaneseText ?B) (rateOrDefault None) []]"
    by metis
  ultimately show ?thesis
    using h1 h2 h3 h0 q2 q4 by (simp add: ca cb rateOrDefault_def)
qed

subsection \<open>C2\<close>

text \<open>
  Claim C2, as stated, fails in src/data/tts.js: the delayed action sets \<open>isSpeaking = true\<close>
  just before it calls \<open>synth.speak\<close>, so \<open>isTTSSpeaking()\<close> is true although no start
  notification has been handled.
\<close>

theorem isTTSSpeaking_optimistic_counterexample:
  "fst (isTTSSpeaking (run (initWorld []) [CallSpeak (Some (js ''test'')) None, TimerFires])) = Inr True \<and>
   \<not> list_ex isStarted [CallSpeak (Some (js ''test'')) None, TimerFires]"
  by code_simp

text \<open>
  Claim C2, amended. \<open>isTTSSpeaking()\<close> returns the flag and changes nothing. From module
  load, in part_000 it is true only if a start notification has been handled; in
  src/data/tts.js only if a start notification has been handled or a timer has fired. The
  notification need not be the current utterance's: after two rapid calls and both timers
  the first utterance's start notification makes it true while \<open>currentUtterance\<close> is the
  second.
\<close>

theorem isTTSSpeaking_reads_flag:
  "isTTSSpeaking w = (Inr (isSpeaking w), w) \<and>
   step w CallIsSpeaking = w \<and> step_part0 w CallIsSpeaking = w \<and>
   (fst (isTTSSpeaking (run_part0 (initWorld vs) es)) = Inr True \<longrightarrow> list_ex isStarted es) \<and>
   (fst (isTTSSpeaking (run (initWorld vs) es)) = Inr True \<longrightarrow>
      list_ex (\<lambda>e. isStarted e \<or> isTimerFires e) es) \<and>
   (let w5 = run_part0 (initWorld [])
        [CallSpeak (Some (js ''a'')) None, CallSpeak (Some (js ''b'')) None, TimerFires, TimerFires,
         Started (newUtterance (js ''a'') (85 / 100) [])]
    in fst (isTTSSpeaking w5) = Inr True \<and>
       currentUtterance w5 = Some (newUtterance (js ''b'') (85 / 100) []))"
proof (intro conjI)
  show "isTTSSpeaking w = (Inr (isSpeaking w), w)" by (simp add: isTTSSpeaking_def returns_def)
  show "step w CallIsSpeaking = w" by (simp add: step_def isTTSSpeaking_def effect_defs)
  show "step_part0 w CallIsSpeaking = w" by (simp add: step_part0_def isTTSSpeaking_def effect_defs)
  show "fst (isTTSSpeaking (run_part0 (initWorld vs) es)) = Inr True \<longrightarrow> list_ex isStarted es"
    using run_part0_flag[of "initWorld vs" es]
    by (simp add: isTTSSpeaking_def returns_def initWorld_def)
  show "fst (isTTSSpeaking (run (initWorld vs) es)) = Inr True \<longrightarrow>
      list_ex (\<lambda>e. isStarted e \<or> isTimerFires e) es"
    using run_flag[of "initWorld vs" es]
    by (simp add: isTTSSpeaking_def returns_def initWorld_def)
  show "let w5 = run_part0 (initWorld [])
        [CallSpeak (Some (js ''a'')) None, CallSpeak (Some (js ''b'')) None, TimerFires, TimerFires,
         Started (newUtterance (js ''a'') (85 / 100) [])]
    in fst (isTTSSpeaking w5) = Inr True \<and>
       currentUtterance w5 = Some (newUtterance (js ''b'') (85 / 100) [])"
    by code_simp
qed

text \<open>
  C2's theorem at two runs where \<open>isTTSSpeaking()\<close> is true.
\<close>

theorem isTTSSpeaking_reads_flag_witness:
  "fst (isTTSSpeaking (run_part0 (initWorld [])
      [CallSpeak (Some (js ''a'')) None, TimerFires, Started (newUtterance (js ''a'') (85 / 100) [])]))
     = Inr True \<and>
   list_ex isStarted
      [CallSpeak (Some (js ''a'')) None, TimerFires, Started (newUtterance (js ''a'') (85 / 100) [])] \<and>
   fst (isTTSSpeaking (run (initWorld []) [CallSpeak (Some (js ''a'')) None, TimerFires])) = Inr True \<and>
   list_ex (\<lambda>e. isStarted e \<or> isTimerFires e) [CallSpeak (Some (js ''a'')) None, TimerFires]"
proof -
  have a: "fst (isTTSSpeaking (run_part0 (initWorld [])
      [CallSpeak (Some (js ''a'')) None, TimerFires, Started (newUtterance (js ''a'') (85 / 100) [])]))
     = Inr True"
    by code_simp
  have b: "fst (isTTSSpeaking (run (initWorld []) [CallSpeak (Some (js ''a'')) None, TimerFires])) = Inr True"
    by code_simp
  from isTTSSpeaking_reads_flag[of "initWorld []" "[]"
      "[CallSpeak (Some (js ''a'')) None, TimerFires, Started (newUtterance (js ''a'') (85 / 100) [])]"]
    a
  have c: "list_ex isStarted
      [CallSpeak (Some (js ''a'')) None, TimerFires, Started (newUtterance (js ''a'') (85 / 100) [])]"
    by blast
  from isTTSSpeaking_reads_flag[of "initWorld []" "[]" "[CallSpeak (Some (js ''a'')) None, TimerFires]"] b
  have d: "list_ex (\<lambda>e. isStarted e \<or> isTimerFires e) [CallSpeak (Some (js ''a'')) None, TimerFires]"
    by blast
  from a b c d show ?thesis by blast
qed

subsection \<open>C3\<close>

text \<open>
  Claim C3, as stated, fails in part_000: its handler suppresses \<open>"interrupted"\<close> only, so
  an error of kind \<open>"cancelled"\<close> emits a diagnostic.
\<close>

theorem onerror_part0_cancelled_counterexample:
  "console (snd (onerror_part0 (js ''cancelled'') (initWorld []))) =
     [Diag ConsoleError [Str (js ''TTS error:''), Str (js ''cancelled'')]]"
  by (simp add: onerror_part0_def effect_defs initWorld_def js_def)

text \<open>
  Claim C3, amended. Every error notification sets \<open>isSpeaking\<close> to false and clears
  \<open>currentUtterance\<close>. src/data/tts.js emits no diagnostic for \<open>"interrupted"\<close> and
  \<open>"cancelled"\<close> and exactly one for any other kind; part_000 emits none for
  \<open>"interrupted"\<close> and exactly one for any other kind, \<open>"cancelled"\<close> included.
\<close>

theorem onerror_diagnostics:
  "onerror k w =
     (Inr (), w\<lparr>isSpeaking := False, currentUtterance := None,
                console := console w @
                  (if k = js ''interrupted'' \<or> k = js ''cancelled'' then []
                   else [Diag ConsoleError [Str ([0x274C] @ js '' Speech error:''), Str k]])\<rparr>) \<and>
   onerror_part0 k w =
     (Inr (), w\<lparr>isSpeaking := False, currentUtterance := None,
                console := console w @
                  (if k = js ''interrupted'' then []
                   else [Diag ConsoleError [Str (js ''TTS error:''), Str k]])\<rparr>) \<and>
   \<not> isSpeaking (step w (Errored u k)) \<and> currentUtterance (step w (Errored u k)) = None \<and>
   \<not> isSpeaking (step_part0 w (Errored u k)) \<and> currentUtterance (step_part0 w (Errored u k)) = None"
proof -
  have a: "onerror k w =
     (Inr (), w\<lparr>isSpeaking := False, currentUtterance := None,
                console := console w @
                  (if k = js ''interrupted'' \<or> k = js ''cancelled'' then []
                   else [Diag ConsoleError [Str ([0x274C] @ js '' Speech error:''), Str k]])\<rparr>)" for w
    by (simp add: onerror_def effect_defs)
  have b: "onerror_part0 k w =
     (Inr (), w\<lparr>isSpeaking := False, currentUtterance := None,
                console := console w @
                  (if k = js ''interrupted'' then []
                   else [Diag ConsoleError [Str (js ''TTS error:''), Str k]])\<rparr>)" for w
    by (simp add: onerror_part0_def effect_defs)
  have "\<not> isSpeaking (step w (Errored u k)) \<and> currentUtterance (step w (Errored u k)) = None"
    by (simp add: step_def a)
  moreover
  have "\<not> isSpeaking (step_part0 w (Errored u k)) \<and> currentUtterance (step_part0 w (Errored u k)) = None"
    by (simp add: step_part0_def b)
  ultimately show ?thesis using a b by blast
qed

text \<open>
  C3's theorem at the kinds \<open>"interrupted"\<close>, \<open>"cancelled"\<close> and \<open>"synthesis-failed"\<close>.
\<close>

theorem onerror_diagnostics_witness:
  "console (snd (onerror (js ''interrupted'') (initWorld []))) = [] \<and>
   console (snd (onerror (js ''cancelled'') (initWorld []))) = [] \<and>
   console (snd (onerror (js ''synthesis-failed'') (initWorld []))) =
     [Diag ConsoleError [Str ([0x274C] @ js '' Speech error:''), Str (js ''synthesis-failed'')]] \<and>
   console (snd (onerror_part0 (js ''interrupted'') (initWorld []))) = []"
proof -
  have c: "console (initWorld []) = []" by (simp add: initWorld_def)
  have n: "js ''synthesis-failed'' \<noteq> js ''interrupted''" "js ''synthesis-failed'' \<noteq> js ''cancelled''"
    "js ''cancelled'' \<noteq> js ''interrupted''"
    by (simp_all add: js_def)
  from onerror_diagnostics[of "js ''interrupted''" "initWorld []"]
       onerror_diagnostics[of "js ''cancelled''" "initWorld []"]
       onerror_diagnostics[of "js ''synthesis-failed''" "initWorld []"] c n
  show ?thesis by simp
qed

subsection \<open>C4\<close>

text \<open>
  Claim C4 fails in part_000, whose \<open>try\<close> encloses the \<open>setTimeout\<close> call and not the
  callback. After \<open>speakJapanese("a")\<close> has been submitted and has started, the capability
  begins to reject submissions and \<open>speakJapanese("b")\<close> is called; when its timer fires,
  \<open>synth.speak\<close> throws, the exception leaves the callback, \<open>isSpeaking\<close> is still true and
  the console has no error entry. (In src/data/tts.js the callback has its own \<open>try\<close>:
  see \<open>delayedAction_absorbs\<close>.)
\<close>

theorem delayedAction_part0_uncaught:
  "task_part0 TimerFires
     (run_part0 (initWorld [])
        [CallSpeak (Some (js ''a'')) None, TimerFires, Started (newUtterance (js ''a'') (85 / 100) []),
         Rejecting True, CallSpeak (Some (js ''b'')) None]) =
   (Inl SubmitFailure,
    \<lparr>isSpeaking = True,
     currentUtterance = Some (newUtterance (js ''b'') (85 / 100) []),
     timers = [],
     console = [Diag ConsoleLog [Str ([0xD83D, 0xDD0A] @ js '' Speaking:''), Str (js ''a'')]],
     synth = \<lparr>speaking = False, queue = [], voices = [], rejects = True,
              requests = [Submit (newUtterance (js ''a'') (85 / 100) []), Cancel],
              onvoiceschanged = Unset\<rparr>\<rparr>)"
  by code_simp

subsection \<open>C5\<close>

text \<open>
  Claim C5, as stated, fails: for \<open>"<br>"\<close> followed by U+6F22 U+5B57 the first segment is
  empty and the function returns the empty string, where taking the first non-empty
  segment gives the two characters.
\<close>

theorem extractJapaneseOnly_first_nonempty_counterexample:
  "extractJapaneseOnly (Some (js ''<br>'' @ [0x6F22, 0x5B57])) = [] \<and>
   extractPrimaryText_spec (js ''<br>'' @ [0x6F22, 0x5B57]) = [0x6F22, 0x5B57]"
  by code_simp

text \<open>
  Claim C5, amended. \<open>extractJapaneseOnly\<close> always takes the first segment \<open>lines[0]\<close>, the
  text before the first newline of the normalised input, empty or not; \<open>split\<close> never
  returns an empty array, so the fallback is never taken, and only \<open>null\<close> and the empty
  string are short-circuited to the empty string. On the mixed content of the claim the
  result is U+6F22 U+5B57.
\<close>

theorem extractJapaneseOnly_first_segment:
  "extractJapaneseOnly None = [] \<and>
   extractJapaneseOnly (Some t) =
     (if t = [] then []
      else cleanJapaneseText (Some (replaceG trailingGroupAt []
             (trim (takeWhile (\<lambda>c. c \<noteq> 0x0A) (replaceG tagAt [] (replaceG brAt [0x0A] t))))))) \<and>
   0 < length (splitOn 0x0A t) \<and>
   extractJapaneseOnly (Some ([0x6F22, 0x5B57, 0xFF08, 0x304B, 0x3093, 0x3058, 0xFF09] @
       js ''<br>kanji (Chinese character)'')) = [0x6F22, 0x5B57]"
proof (intro conjI)
  show "extractJapaneseOnly None = []" by (simp add: extractJapaneseOnly_def)
  show "extractJapaneseOnly (Some t) =
     (if t = [] then []
      else cleanJapaneseText (Some (replaceG trailingGroupAt []
             (trim (takeWhile (\<lambda>c. c \<noteq> 0x0A) (replaceG tagAt [] (replaceG brAt [0x0A] t)))))))"
    by (rule extractJapaneseOnly_first_line)
  show "0 < length (splitOn 0x0A t)" by (simp add: splitOn_nonempty)
  show "extractJapaneseOnly (Some ([0x6F22, 0x5B57, 0xFF08, 0x304B, 0x3093, 0x3058, 0xFF09] @
       js ''<br>kanji (Chinese character)'')) = [0x6F22, 0x5B57]"
    by code_simp
qed

text \<open>
  C5's theorem at \<open>"<br>a"\<close>, whose first segment is empty.
\<close>

theorem extractJapaneseOnly_first_segment_witness:
  "extractJapaneseOnly (Some (js ''<br>a'')) = [] \<and>
   takeWhile (\<lambda>c. c \<noteq> 0x0A) (replaceG tagAt [] (replaceG brAt [0x0A] (js ''<br>a''))) = []"
proof -
  have e: "takeWhile (\<lambda>c. c \<noteq> 0x0A) (replaceG tagAt [] (replaceG brAt [0x0A] (js ''<br>a''))) = []"
    by code_simp
  have n: "js ''<br>a'' \<noteq> []" by (simp add: js_def)
  have c: "cleanJapaneseText (Some (replaceG trailingGroupAt [] (trim []))) = []" by code_simp
  from extractJapaneseOnly_first_segment[of "js ''<br>a''"] e n c show ?thesis by simp
qed

subsection \<open>C6\<close>

text \<open>
  Claim C6, as stated, fails in part_000: on the empty string it returns without writing
  anything to the console, so no warning is signalled.
\<close>

theorem speakJapanese_part0_silent_counterexample:
  "cleanJapaneseText (Some []) = [] \<and>
   console (snd (speakJapanese_part0 (Some []) None (initWorld []))) = []"
  by (simp add: cleanJapaneseText_def speakJapanese_part0_def effect_defs initWorld_def)

text \<open>
  Claim C6, amended. When the cleaned text is empty, \<open>speakJapanese\<close> leaves the flag, the
  stored utterance, the timers and the capability as they are: no cancel, nothing scheduled,
  nothing submitted. src/data/tts.js adds exactly one warning to the console; part_000
  changes nothing at all.
\<close>

theorem speakJapanese_empty_text:
  "cleanJapaneseText t = [] \<Longrightarrow>
   speakJapanese t r w =
     (Inr (), w\<lparr>console := console w @ [Diag ConsoleWarn [Str (js ''TTS: Empty text provided'')]]\<rparr>) \<and>
   speakJapanese_part0 t r w = (Inr (), w)"
  by (simp add: speakJapanese_def speakJapanese_part0_def effect_defs)

text \<open>
  C6's theorem at \<open>null\<close>.
\<close>

theorem speakJapanese_empty_text_witness:
  "cleanJapaneseText None = [] \<and>
   speakJapanese None None (initWorld []) =
     (Inr (), (initWorld [])\<lparr>console := [Diag ConsoleWarn [Str (js ''TTS: Empty text provided'')]]\<rparr>) \<and>
   speakJapanese_part0 None None (initWorld []) = (Inr (), initWorld [])"
proof -
  have h: "cleanJapaneseText None = []" by (simp add: cleanJapaneseText_def)
  from speakJapanese_empty_text[OF h, of None "initWorld []"] h show ?thesis
    by (simp add: initWorld_def)
qed

subsection \<open>C7\<close>

text \<open>
  Claim C7, as stated, fails: \<open>"((a))"\<close> contains a parenthesised group, and the lazy match
  ends at the first closer, so the second closer stays in the output.
\<close>

theorem cleanJapaneseText_paren_counterexample:
  "testG groupAt (js ''((a))'') \<and> list_ex isParen (cleanJapaneseText (Some (js ''((a))'')))"
  by code_simp

text \<open>
  Claim C7, amended. The output of \<open>cleanJapaneseText\<close> never contains a complete group,
  that is an opener followed by a closer with no line terminator between them. If the
  input is properly paired (every opener outside a group has a closer before the next line
  terminator, and no closer stands outside a group) the output has no parenthesis of
  either width at all. \<open>null\<close> and the empty string give the empty string.
\<close>

theorem cleanJapaneseText_no_group_left:
  "\<not> (\<exists>pre opn mid c post. cleanJapaneseText t = pre @ opn # mid @ c # post \<and>
        isOpener opn \<and> isCloser c \<and> (\<forall>x\<in>set mid. \<not> isLineTerminator x)) \<and>
   (wellPaired False s \<longrightarrow> \<not> list_ex isParen (cleanJapaneseText (Some s))) \<and>
   cleanJapaneseText None = [] \<and> cleanJapaneseText (Some []) = []"
  using cleanJapaneseText_no_group[of t] wellPaired_clean[of s]
  unfolding testG_groupAt_iff by (simp add: cleanJapaneseText_def)

text \<open>
  C7's theorem at the properly paired input \<open>"a(b)c"\<close>.
\<close>

theorem cleanJapaneseText_no_group_left_witness:
  "wellPaired False (js ''a(b)c'') \<and> \<not> list_ex isParen (cleanJapaneseText (Some (js ''a(b)c''))) \<and>
   cleanJapaneseText (Some (js ''a(b)c'')) = js ''ac''"
proof -
  have w: "wellPaired False (js ''a(b)c'')" by code_simp
  have e: "cleanJapaneseText (Some (js ''a(b)c'')) = js ''ac''" by code_simp
  from cleanJapaneseText_no_group_left[of "Some (js ''a(b)c'')" "js ''a(b)c''"] w e
  show ?thesis by simp
qed

subsection \<open>C8\<close>

text \<open>
  Claim C8: \<open>cleanJapaneseText\<close> is idempotent, for every string and for \<open>null\<close>.
\<close>

theorem cleanJapaneseText_idempotent:
  "cleanJapaneseText (Some (cleanJapaneseText x)) = cleanJapaneseText x"
proof (cases "cleanJapaneseText x = []")
  case True
  then show ?thesis by (simp add: cleanJapaneseText_def)
next
  case False
  then obtain t where t: "x = Some t" "t \<noteq> []" "cleanJapaneseText x = trim (replaceG groupAt [] t)"
    by (auto simp: cleanJapaneseText_def split: option.splits if_splits)
  have "\<not> testG groupAt (cleanJapaneseText x)" by (rule cleanJapaneseText_no_group)
  then have "replaceG groupAt [] (cleanJapaneseText x) = cleanJapaneseText x"
    by (rule replaceG_no_match)
  with False t show ?thesis by (simp add: cleanJapaneseText_def trim_idem)
qed

text \<open>
  C8's theorem at \<open>"a(b) "\<close>.
\<close>

theorem cleanJapaneseText_idempotent_witness:
  "cleanJapaneseText (Some (js ''a(b) '')) = js ''a'' \<and>
   cleanJapaneseText (Some (js ''a'')) = js ''a''"
proof -
  have e: "cleanJapaneseText (Some (js ''a(b) '')) = js ''a''" by code_simp
  with cleanJapaneseText_idempotent[of "Some (js ''a(b) '')"] show ?thesis by simp
qed

subsection \<open>C9\<close>

text \<open>
  Claim C9. In every state \<open>stopSpeech\<close> returns normally; afterwards \<open>isTTSSpeaking()\<close> is
  false and \<open>currentUtterance\<close> is cleared; timers and console are untouched; a cancel
  reaches the capability exactly when it reports \<open>speaking\<close>; otherwise nothing but the two
  module variables is reset, and in an idle state nothing changes at all.
\<close>

theorem stopSpeech_any_state:
  "fst (stopSpeech w) = Inr () \<and>
   fst (isTTSSpeaking (snd (stopSpeech w))) = Inr False \<and>
   currentUtterance (snd (stopSpeech w)) = None \<and>
   timers (snd (stopSpeech w)) = timers w \<and>
   console (snd (stopSpeech w)) = console w \<and>
   requests (synth (snd (stopSpeech w))) =
     requests (synth w) @ (if speaking (synth w) then [Cancel] else []) \<and>
   (\<not> speaking (synth w) \<longrightarrow>
      snd (stopSpeech w) = w\<lparr>isSpeaking := False, currentUtterance := None\<rparr>) \<and>
   (\<not> speaking (synth w) \<and> \<not> isSpeaking w \<and> currentUtterance w = None \<longrightarrow>
      snd (stopSpeech w) = w)"
  by (simp add: stopSpeech_eq isTTSSpeaking_def returns_def cancelAll_def)

text \<open>
  C9's theorem at module load, an idle state.
\<close>

theorem stopSpeech_any_state_witness:
  "\<not> speaking (synth (initWorld [])) \<and> \<not> isSpeaking (initWorld []) \<and>
   currentUtterance (initWorld []) = None \<and>
   stopSpeech (initWorld []) = (Inr (), initWorld [])"
proof -
  have h: "\<not> speaking (synth (initWorld []))" "\<not> isSpeaking (initWorld [])"
    "currentUtterance (initWorld []) = None"
    by (simp_all add: initWorld_def)
  from stopSpeech_any_state[of "initWorld []"] h show ?thesis
    by (simp add: prod_eq_iff)
qed

subsection \<open>C10\<close>

text \<open>
  Claim C10. The pieces of the scan make up the input, and \<open>cleanJapaneseText\<close> keeps the
  literal pieces. Every removed piece starts with an opener of either width and ends with
  the next closer of either width (no closer and no line terminator in between); and an
  opener followed by such a run and a closer always matches, whatever the two widths. The
  group of U+6E07 U+304F \<open>(\<close> U+304B U+308F U+304F U+FF09, with a half-width opener and a
  full-width closer, is removed.
\<close>

theorem cleanJapaneseText_mixed_width:
  "concat (map pieceIn (scanG groupAt s)) = s \<and>
   cleanJapaneseText (Some s) = trim (concat (map (pieceOut []) (scanG groupAt s))) \<and>
   (\<forall>g\<in>set (removedG groupAt s).
      \<exists>opn mid c. g = opn # mid @ [c] \<and> isOpener opn \<and> isCloser c \<and>
        (\<forall>x\<in>set mid. \<not> isCloser x \<and> \<not> isLineTerminator x)) \<and>
   (isOpener opn \<and> isCloser c \<and> (\<forall>x\<in>set mid. \<not> isCloser x \<and> \<not> isLineTerminator x) \<longrightarrow>
      groupAt (opn # mid @ c # rest) = Some (length mid + 2)) \<and>
   cleanJapaneseText (Some [0x6E07, 0x304F, 0x28, 0x304B, 0x308F, 0x304F, 0xFF09]) = [0x6E07, 0x304F]"
proof (intro conjI)
  show "concat (map pieceIn (scanG groupAt s)) = s" by (rule scanG_pieces)
  show "cleanJapaneseText (Some s) = trim (concat (map (pieceOut []) (scanG groupAt s)))"
    by (cases "s = []") (simp_all add: cleanJapaneseText_def replaceG_def trim_def trimStart_def trimEnd_def)
  show "\<forall>g\<in>set (removedG groupAt s).
      \<exists>opn mid c. g = opn # mid @ [c] \<and> isOpener opn \<and> isCloser c \<and>
        (\<forall>x\<in>set mid. \<not> isCloser x \<and> \<not> isLineTerminator x)"
    using removed_shape by blast
  show "isOpener opn \<and> isCloser c \<and> (\<forall>x\<in>set mid. \<not> isCloser x \<and> \<not> isLineTerminator x) \<longrightarrow>
      groupAt (opn # mid @ c # rest) = Some (length mid + 2)"
    by (simp add: lazyClose_complete)
  show "cleanJapaneseText (Some [0x6E07, 0x304F, 0x28, 0x304B, 0x308F, 0x304F, 0xFF09]) = [0x6E07, 0x304F]"
    by code_simp
qed

text \<open>
  C10's theorem at the mixed-width example.
\<close>

theorem cleanJapaneseText_mixed_width_witness:
  "removedG groupAt [0x6E07, 0x304F, 0x28, 0x304B, 0x308F, 0x304F, 0xFF09] = [[0x28, 0x304B, 0x308F, 0x304F, 0xFF09]] \<and>
   (\<exists>opn mid c. [0x28, 0x304B, 0x308F, 0x304F, 0xFF09] = opn # mid @ [c] \<and> isOpener opn \<and> isCloser c \<and>
        (\<forall>x\<in>set mid. \<not> isCloser x \<and> \<not> isLineTerminator x)) \<and>
   isOpener 0x28 \<and> isCloser 0xFF09 \<and>
   groupAt ([0x28, 0x304B, 0x308F, 0x304F, 0xFF09]) = Some 5"
proof -
  have r: "removedG groupAt [0x6E07, 0x304F, 0x28, 0x304B, 0x308F, 0x304F, 0xFF09] = [[0x28, 0x304B, 0x308F, 0x304F, 0xFF09]]"
    by code_simp
  have o: "isOpener 0x28" "isCloser 0xFF09" by (simp_all add: isOpener_def isCloser_def)
  have m: "\<forall>x\<in>set [0x304B, 0x308F, 0x304F]. \<not> isCloser x \<and> \<not> isLineTerminator x"
    by (simp add: isCloser_def isLineTerminator_def)
  note t = cleanJapaneseText_mixed_width[of "[0x6E07, 0x304F, 0x28, 0x304B, 0x308F, 0x304F, 0xFF09]"
      "0x28" "0xFF09" "[0x304B, 0x308F, 0x304F]" "[]"]
  from t r have "\<exists>opn mid c. [0x28, 0x304B, 0x308F, 0x304F, 0xFF09] = opn # mid @ [c] \<and> isOpener opn \<and> isCloser c \<and>
        (\<forall>x\<in>set mid. \<not> isCloser x \<and> \<not> isLineTerminator x)"
    by simp
  moreover from t o m have "groupAt ([0x28, 0x304B, 0x308F, 0x304F, 0xFF09]) = Some 5"
    by simp
  ultimately show ?thesis using r o by simp
qed

end
